theory Spec2Isabelle
  imports Main "HOL-Library.AList"
begin

section \<open>Data model\<close>

text \<open>
  A candidate link as the page scan produces it: \<open>title\<close>, \<open>url\<close>, \<open>method\<close> (here
  \<open>method_tag\<close>) and, for VW, \<open>actualFilename\<close>. An absent string field reads as
  \<open>undefined\<close> in the source; every use of such a field in the code modelled here is a
  truthiness test or follows one, and the empty string is falsy as well, so an absent
  field is modelled by the empty string.
\<close>

record candidate =
  title :: string
  url :: string
  method_tag :: string
  actualFilename :: string

text \<open>
  A categorized artifact: the candidate spread into a new object together with
  \<open>category\<close>, \<open>appType\<close>, \<open>displayName\<close>, \<open>version\<close> and (VW only)
  \<open>originalFilename\<close>.
\<close>

record artifact = candidate +
  category :: string
  appType :: string
  displayName :: string
  version :: string
  originalFilename :: string

text \<open>
  The record \<open>downloadFile\<close> stores with \<open>updateMetadata\<close>: the artifact spread
  together with \<open>fileName\<close>, \<open>filePath\<close>, \<open>fileSize\<close> and \<open>downloadedAt\<close>.
  Timestamps are natural numbers (milliseconds); ISO strings of \<open>toISOString\<close> are
  ordered as the instants they denote.
\<close>

record artifact_record = artifact +
  fileName :: string
  filePath :: string
  fileSize :: nat
  downloadedAt :: nat

text \<open>
  \<open>this.metadata\<close>: \<open>lastUpdate\<close> is \<open>null\<close> or a timestamp, \<open>downloads\<close> is an
  object keyed by category, or missing altogether (the constructor starts with
  \<open>{}\<close>).
\<close>

record vendor_state =
  lastUpdate :: "nat option"
  downloads :: "(string \<rightharpoonup> artifact_record) option"

text \<open>The empty shape \<open>loadMetadata\<close> falls back to.\<close>

definition empty_vendor_state :: vendor_state where
  "empty_vendor_state = \<lparr>lastUpdate = None, downloads = Some Map.empty\<rparr>"

definition record_of :: "vendor_state \<Rightarrow> string \<Rightarrow> artifact_record option" where
  "record_of m c = (case downloads m of None \<Rightarrow> None | Some ds \<Rightarrow> ds c)"

section \<open>Version policy\<close>

text \<open>
  \<open>this.metadata.downloads?.[category]?.version\<close>: \<open>None\<close> stands for
  \<open>undefined\<close>.
\<close>

definition lastVersion_of :: "vendor_state \<Rightarrow> string \<Rightarrow> string option" where
  "lastVersion_of m c = map_option version (record_of m c)"

text \<open>JavaScript truthiness of a value that is a string or \<open>undefined\<close>.\<close>

fun truthy :: "string option \<Rightarrow> bool" where
  "truthy None = False"
| "truthy (Some s) = (s \<noteq> [])"

definition isNewVersion :: "vendor_state \<Rightarrow> string \<Rightarrow> string \<Rightarrow> bool" where
  "isNewVersion m c v =
     (let lastVersion = lastVersion_of m c in
      if \<not> truthy lastVersion then True
      else if v = ''unknown'' then False
      else Some v \<noteq> lastVersion)"

text \<open>
  The only writer of records is \<open>updateMetadata\<close>, and the version it stores is the
  one \<open>extractVersion\<close> gave the artifact: a non-empty match or \<open>unknown\<close>. So in
  every state the program produces each record carries a non-empty version.
\<close>

definition recorded_versions_ok :: "vendor_state \<Rightarrow> bool" where
  "recorded_versions_ok m = (\<forall>c r. record_of m c = Some r \<longrightarrow> version r \<noteq> [])"

section \<open>JavaScript strings\<close>

text \<open>
  Strings are lists of characters with code points below 256 (Latin-1); characters
  beyond that range are outside the model. \<open>toLowerCase\<close> maps the capitals of the
  range to their small letters, as JavaScript does on these code points: \<open>A\<close> to \<open>Z\<close>,
  and the code points \<open>0xC0\<close> to \<open>0xDE\<close> other than the multiplication sign \<open>0xD7\<close>,
  each to the code point 32 higher. Every other character stays as it is.
\<close>

definition latin_capitals :: string where
  "latin_capitals =
     [
      CHR 0xC0, CHR 0xC1, CHR 0xC2, CHR 0xC3, CHR 0xC4, CHR 0xC5, CHR 0xC6, CHR 0xC7,
      CHR 0xC8, CHR 0xC9, CHR 0xCA, CHR 0xCB, CHR 0xCC, CHR 0xCD, CHR 0xCE, CHR 0xCF,
      CHR 0xD0, CHR 0xD1, CHR 0xD2, CHR 0xD3, CHR 0xD4, CHR 0xD5, CHR 0xD6, CHR 0xD8,
      CHR 0xD9, CHR 0xDA, CHR 0xDB, CHR 0xDC, CHR 0xDD, CHR 0xDE]"

definition latin_smalls :: string where
  "latin_smalls =
     [
      CHR 0xE0, CHR 0xE1, CHR 0xE2, CHR 0xE3, CHR 0xE4, CHR 0xE5, CHR 0xE6, CHR 0xE7,
      CHR 0xE8, CHR 0xE9, CHR 0xEA, CHR 0xEB, CHR 0xEC, CHR 0xED, CHR 0xEE, CHR 0xEF,
      CHR 0xF0, CHR 0xF1, CHR 0xF2, CHR 0xF3, CHR 0xF4, CHR 0xF5, CHR 0xF6, CHR 0xF8,
      CHR 0xF9, CHR 0xFA, CHR 0xFB, CHR 0xFC, CHR 0xFD, CHR 0xFE]"

definition lower_char :: "char \<Rightarrow> char" where
  "lower_char c =
     (case map_of (zip (''ABCDEFGHIJKLMNOPQRSTUVWXYZ'' @ latin_capitals)
                       (''abcdefghijklmnopqrstuvwxyz'' @ latin_smalls)) c of
        Some d \<Rightarrow> d
      | None \<Rightarrow> c)"

definition toLowerCase :: "string \<Rightarrow> string" where
  "toLowerCase s = map lower_char s"

fun startsWith :: "string \<Rightarrow> string \<Rightarrow> bool" where
  "startsWith s [] = True"
| "startsWith [] (p # ps) = False"
| "startsWith (c # cs) (p # ps) = (c = p \<and> startsWith cs ps)"

definition endsWith :: "string \<Rightarrow> string \<Rightarrow> bool" where
  "endsWith s p = startsWith (rev s) (rev p)"

text \<open>\<open>s.includes(p)\<close>: \<open>p\<close> occurs in \<open>s\<close> as a contiguous run.\<close>

fun str_includes :: "string \<Rightarrow> string \<Rightarrow> bool" where
  "str_includes [] p = (p = [])"
| "str_includes (c # cs) p = (startsWith (c # cs) p \<or> str_includes cs p)"

section \<open>Regular expressions of the source\<close>

text \<open>
  The patterns of the source are sequences of single characters, character classes
  under \<open>+\<close>, \<open>*\<close> or \<open>{n}\<close>, and the anchor \<open>$\<close>. The matcher is the backtracking
  one of JavaScript: a greedy quantifier takes the longest run first and gives
  characters back one at a time, and the search tries the start positions from left to
  right. In every pattern the capture group spans the whole match.
\<close>

datatype cls = Digit | UpperOrDash | AnyChar

fun in_cls :: "cls \<Rightarrow> char \<Rightarrow> bool" where
  "in_cls Digit c = (c \<in> set ''0123456789'')"
| "in_cls UpperOrDash c = (c \<in> set ''ABCDEFGHIJKLMNOPQRSTUVWXYZ-'')"
| "in_cls AnyChar c = (c \<noteq> CHR 0x0A \<and> c \<noteq> CHR 0x0D)"

datatype piece = Lit char | Many1 cls | Many0 cls | Exactly nat cls | AtEnd

text \<open>
  \<open>try_down f lo k\<close>: the quantifier has taken \<open>k\<close> characters; \<open>f k\<close> matches the rest
  of the pattern after them. On failure one character is given back, down to \<open>lo\<close>.
\<close>

fun try_down :: "(nat \<Rightarrow> nat option) \<Rightarrow> nat \<Rightarrow> nat \<Rightarrow> nat option" where
  "try_down f lo 0 = (if 0 < lo then None else f 0)"
| "try_down f lo (Suc j) =
     (if Suc j < lo then None
      else case f (Suc j) of
             Some n \<Rightarrow> Some (Suc j + n)
           | None \<Rightarrow> try_down f lo j)"

text \<open>\<open>match_here ps s\<close>: the length of the match of \<open>ps\<close> at the start of \<open>s\<close>.\<close>

primrec match_here :: "piece list \<Rightarrow> string \<Rightarrow> nat option" where
  "match_here [] s = Some 0"
| "match_here (p # ps) s =
     (case p of
        Lit c \<Rightarrow>
          (case s of
             [] \<Rightarrow> None
           | x # xs \<Rightarrow> if x = c then map_option Suc (match_here ps xs) else None)
      | Many1 cl \<Rightarrow>
          try_down (\<lambda>k. match_here ps (drop k s)) 1 (length (takeWhile (in_cls cl) s))
      | Many0 cl \<Rightarrow>
          try_down (\<lambda>k. match_here ps (drop k s)) 0 (length (takeWhile (in_cls cl) s))
      | Exactly n cl \<Rightarrow>
          (if n \<le> length s \<and> list_all (in_cls cl) (take n s)
           then map_option ((+) n) (match_here ps (drop n s))
           else None)
      | AtEnd \<Rightarrow> (if s = [] then match_here ps s else None))"

text \<open>\<open>regex_exec ps s\<close>: start index and length of the leftmost match.\<close>

fun regex_exec :: "piece list \<Rightarrow> string \<Rightarrow> (nat \<times> nat) option" where
  "regex_exec ps [] = map_option (Pair 0) (match_here ps [])"
| "regex_exec ps (c # cs) =
     (case match_here ps (c # cs) of
        Some n \<Rightarrow> Some (0, n)
      | None \<Rightarrow> map_option (\<lambda>(i, n). (Suc i, n)) (regex_exec ps cs))"

text \<open>\<open>s.match(re)\<close>, giving \<open>match[1]\<close>, or \<open>None\<close> for \<open>null\<close>.\<close>

definition js_match :: "piece list \<Rightarrow> string \<Rightarrow> string option" where
  "js_match ps s = map_option (\<lambda>(i, n). take n (drop i s)) (regex_exec ps s)"

text \<open>\<open>s.replace(re, '')\<close> for a pattern without the \<open>g\<close> flag.\<close>

definition js_remove :: "piece list \<Rightarrow> string \<Rightarrow> string" where
  "js_remove ps s =
     (case regex_exec ps s of
        None \<Rightarrow> s
      | Some (i, n) \<Rightarrow> take i s @ drop (i + n) s)"

text \<open>The version patterns.\<close>

definition pat_underscore_region :: "piece list" where
  "pat_underscore_region =
     [Many1 Digit, Lit CHR ''_'', Many1 Digit, Lit CHR ''_'', Many1 Digit,
      Many0 UpperOrDash, Lit CHR ''_'', Exactly 8 Digit]"

definition pat_underscore_date :: "piece list" where
  "pat_underscore_date =
     [Many1 Digit, Lit CHR ''_'', Many1 Digit, Lit CHR ''_'', Many1 Digit,
      Lit CHR ''_'', Exactly 8 Digit]"

definition pat_four_dot :: "piece list" where
  "pat_four_dot =
     [Many1 Digit, Lit CHR ''.'', Many1 Digit, Lit CHR ''.'', Many1 Digit,
      Lit CHR ''.'', Many1 Digit]"

definition pat_three_dot :: "piece list" where
  "pat_three_dot =
     [Many1 Digit, Lit CHR ''.'', Many1 Digit, Lit CHR ''.'', Many1 Digit]"

definition pat_dash :: "piece list" where
  "pat_dash =
     [Many1 Digit, Lit CHR ''-'', Many1 Digit, Lit CHR ''-'', Many1 Digit]"

definition pat_iso_date :: "piece list" where
  "pat_iso_date =
     [Exactly 4 Digit, Lit CHR ''-'', Exactly 2 Digit, Lit CHR ''-'', Exactly 2 Digit]"

text \<open>The loop \<open>for (const pattern of patterns)\<close> with its early return.\<close>

fun first_match :: "piece list list \<Rightarrow> string \<Rightarrow> string option" where
  "first_match [] s = None"
| "first_match (p # ps) s =
     (case js_match p s of
        Some v \<Rightarrow> Some v
      | None \<Rightarrow> first_match ps s)"

definition urlPatterns :: "piece list list" where
  "urlPatterns = [pat_four_dot, pat_three_dot, pat_dash]"

definition filenamePatterns :: "piece list list" where
  "filenamePatterns =
     [pat_underscore_region, pat_underscore_date, pat_four_dot, pat_three_dot,
      pat_dash, pat_iso_date]"

text \<open>\<open>BaseProvider.extractVersion(url)\<close>, the one BMW uses.\<close>

definition extractVersion :: "string \<Rightarrow> string" where
  "extractVersion u =
     (case first_match urlPatterns u of
        Some v \<Rightarrow> v
      | None \<Rightarrow> ''unknown'')"

text \<open>\<open>VWProvider.extractVersion(url, filename)\<close>.\<close>

definition VW_extractVersion :: "string \<Rightarrow> string \<Rightarrow> string" where
  "VW_extractVersion u filename =
     (case (if filename \<noteq> [] then first_match filenamePatterns filename else None) of
        Some v \<Rightarrow> v
      | None \<Rightarrow>
          (case first_match urlPatterns u of
             Some v \<Rightarrow> v
           | None \<Rightarrow> ''unknown''))"

section \<open>BMW categorization\<close>

text \<open>The allow-lists the constructor reads from the environment.\<close>

record bmw_config =
  istaPFilter :: "string list"
  istaNextFilter :: "string list"

text \<open>\<open>this.downloadCategories[appType] || {}\<close>, keys in declaration order.\<close>

definition BMW_downloadCategories :: "string \<Rightarrow> (string \<times> string) list" where
  "BMW_downloadCategories app =
     (if app = ''ista-p'' then
        [(''installer'', ''Installationsprogramm ISTA/P''),
         (''data_archive'', ''Datenarchiv ISTA/P'')]
      else if app = ''ista-next'' then
        [(''client'', ''Installationsdatei ISTA Client''),
         (''programming_data'', ''ISTA Programmierdaten''),
         (''icom_firmware'', ''ICOM Next Firmware''),
         (''ptd_driver'', ''BMW PTD-Treiber'')]
      else [])"

text \<open>
  \<open>filter.some(filterText => title.includes(filterLower) || download.title.includes(filterText))\<close>
  where \<open>title\<close> is the lowercased title.
\<close>

definition matchesFilter :: "string list \<Rightarrow> string \<Rightarrow> bool" where
  "matchesFilter filt t =
     list_ex (\<lambda>filterText.
        str_includes (toLowerCase t) (toLowerCase filterText) \<or> str_includes t filterText) filt"

text \<open>
  The \<open>if\<close>/\<open>else if\<close> chains of \<open>categorizeDownloads\<close>; \<open>t\<close> and \<open>u\<close> are the
  lowercased title and URL, \<open>None\<close> is \<open>category = null\<close>.
\<close>

definition BMW_rule :: "string \<Rightarrow> string \<Rightarrow> string \<Rightarrow> string option" where
  "BMW_rule app t u =
     (if app = ''ista-p'' then
        (if str_includes t ''installationsprogramm'' \<or>
            str_includes t ''installationsdatei'' \<or>
            str_includes u ''istaoss'' \<or>
            str_includes u ''bdrclient''
         then Some ''installer''
         else if str_includes t ''datenarchiv'' \<or>
                 str_includes u ''commondat'' \<or>
                 str_includes u ''.istapdata'' \<or>
                 (str_includes u ''ista-p'' \<and> str_includes u ''commondat'')
         then Some ''data_archive''
         else None)
      else if app = ''ista-next'' then
        (if str_includes t ''programmierdaten'' \<or>
            str_includes u ''ISTAOSS_ProgrammingData_''
         then Some ''programming_data''
         else if str_includes t ''installationsdatei'' \<or>
                 str_includes t ''client'' \<or>
                 str_includes u ''istaoss'' \<or>
                 str_includes u ''client''
         then Some ''client''
         else if (str_includes t ''icom'' \<and> str_includes t ''firmware'') \<or>
                 str_includes u ''ICOM-Next-FW'' \<or>
                 (str_includes u ''icom'' \<and> str_includes u ''fw'')
         then Some ''icom_firmware''
         else if str_includes t ''ptd'' \<or>
                 str_includes t ''treiber'' \<or>
                 str_includes u ''ptd'' \<or>
                 str_includes u ''passthru''
         then Some ''ptd_driver''
         else None)
      else None)"

text \<open>The object \<open>{...download, category, appType, displayName, version}\<close>.\<close>

definition BMW_artifact :: "string \<Rightarrow> string \<Rightarrow> candidate \<Rightarrow> artifact" where
  "BMW_artifact app c d =
     \<lparr>title = title d, url = url d, method_tag = method_tag d,
      actualFilename = actualFilename d,
      category = c, appType = app,
      displayName = (case map_of (BMW_downloadCategories app) c of
                       Some n \<Rightarrow> n
                     | None \<Rightarrow> []),
      version = extractVersion (url d),
      originalFilename = []\<rparr>"

text \<open>
  One pass of the loop body over a candidate. \<open>categorized\<close> is the object under
  construction, as the list of its entries in insertion order.
\<close>

definition BMW_categorize_one ::
  "bmw_config \<Rightarrow> string \<Rightarrow> (string \<times> artifact) list \<Rightarrow> candidate \<Rightarrow> (string \<times> artifact) list"
where
  "BMW_categorize_one cfg app categorized d =
     (let t = toLowerCase (title d);
          u = toLowerCase (url d);
          filt = (if app = ''ista-p'' then istaPFilter cfg else istaNextFilter cfg)
      in
      if \<not> matchesFilter filt (title d) then categorized
      else
        (case BMW_rule app t u of
           None \<Rightarrow> categorized
         | Some c \<Rightarrow>
             if c \<in> set (map fst (BMW_downloadCategories app)) \<and> map_of categorized c = None
             then categorized @ [(c, BMW_artifact app c d)]
             else categorized))"

definition BMW_categorizeDownloads ::
  "bmw_config \<Rightarrow> candidate list \<Rightarrow> string \<Rightarrow> (string \<times> artifact) list"
where
  "BMW_categorizeDownloads cfg ds app = foldl (BMW_categorize_one cfg app) [] ds"

text \<open>The two candidates of the categorization example, both on the allow-list.\<close>

definition pd_candidate :: candidate where
  "pd_candidate =
     \<lparr>title = ''ISTA Programmierdaten'',
      url = ''https://aos.bmwgroup.com/api/v2/downloads/ISTAOSS_ProgrammingData_1.2.3.zip'',
      method_tag = ''link_search_frame_0'', actualFilename = []\<rparr>"

definition client_candidate :: candidate where
  "client_candidate =
     \<lparr>title = ''Installationsdatei Client'',
      url = ''https://aos.bmwgroup.com/api/v2/downloads/client_1.2.3.exe'',
      method_tag = ''link_search_frame_0'', actualFilename = []\<rparr>"

definition example_config :: bmw_config where
  "example_config =
     \<lparr>istaPFilter = [], istaNextFilter = [''Programmierdaten'', ''Installationsdatei'']\<rparr>"

text \<open>
  A candidate is accepted for category \<open>c\<close> when it passes the allow-list of the
  application, \<open>c\<close> is the category its first matching rule names, and \<open>c\<close> is one
  of the application's categories.
\<close>

definition BMW_accepts :: "bmw_config \<Rightarrow> string \<Rightarrow> string \<Rightarrow> candidate \<Rightarrow> bool" where
  "BMW_accepts cfg app c d =
     (matchesFilter (if app = ''ista-p'' then istaPFilter cfg else istaNextFilter cfg) (title d) \<and>
      BMW_rule app (toLowerCase (title d)) (toLowerCase (url d)) = Some c \<and>
      c \<in> set (map fst (BMW_downloadCategories app)))"

text \<open>
  A candidate whose URL names programming data but whose title does not, with an
  allow-list that lets it through.
\<close>

definition pd_by_url_candidate :: candidate where
  "pd_by_url_candidate =
     \<lparr>title = ''ISTA Daten'',
      url = ''https://aos.bmwgroup.com/api/v2/downloads/ISTAOSS_ProgrammingData_4.5.6.zip'',
      method_tag = ''link_search_main'', actualFilename = []\<rparr>"

definition ista_config :: bmw_config where
  "ista_config = \<lparr>istaPFilter = [], istaNextFilter = [''ISTA'']\<rparr>"

text \<open>A BMW download URL whose file name carries an underscore-grouped version with a date.\<close>

definition underscore_date_url :: string where
  "underscore_date_url = ''https://aos.bmwgroup.com/api/v2/downloads/ISTA_25_1_0_20250820.zip''"

section \<open>File names\<close>

text \<open>
  \<open>path.extname\<close> and \<open>path.basename\<close> of Node (POSIX flavour). Both look at the
  last component of the path, after trailing slashes are dropped. The extension starts
  at the last dot of that component; there is none when the component has no dot,
  when its only dot is its first character, or when the component is \<open>..\<close>.
\<close>

definition last_component :: "string \<Rightarrow> string" where
  "last_component p =
     rev (takeWhile (\<lambda>c. c \<noteq> CHR ''/'') (dropWhile (\<lambda>c. c = CHR ''/'') (rev p)))"

definition extname :: "string \<Rightarrow> string" where
  "extname p =
     (let comp = last_component p;
          after_dot = rev (takeWhile (\<lambda>c. c \<noteq> CHR ''.'') (rev comp))
      in
      if CHR ''.'' \<notin> set comp then []
      else if Suc (length after_dot) = length comp then []
      else if comp = ''..'' then []
      else CHR ''.'' # after_dot)"

definition basename :: "string \<Rightarrow> string \<Rightarrow> string" where
  "basename p ext =
     (let comp = last_component p in
      if ext \<noteq> [] \<and> length ext \<le> length p then
        (if ext = p then []
         else if endsWith comp ext \<and> comp \<noteq> ext
         then take (length comp - length ext) comp
         else comp)
      else comp)"

text \<open>The four suffix-stripping patterns of \<open>getBaseFileName\<close>.\<close>

definition strip_dotted3 :: "piece list" where
  "strip_dotted3 =
     [Lit CHR ''_'', Many1 Digit, Lit CHR ''.'', Many1 Digit, Lit CHR ''.'', Many1 Digit,
      Many0 AnyChar, AtEnd]"

definition strip_iso_date :: "piece list" where
  "strip_iso_date =
     [Lit CHR ''_'', Exactly 4 Digit, Lit CHR ''-'', Exactly 2 Digit, Lit CHR ''-'',
      Exactly 2 Digit, Many0 AnyChar, AtEnd]"

definition strip_dashed :: "piece list" where
  "strip_dashed =
     [Lit CHR ''_'', Many1 Digit, Lit CHR ''-'', Many1 Digit, Lit CHR ''-'', Many1 Digit,
      Many0 AnyChar, AtEnd]"

definition strip_dotted2 :: "piece list" where
  "strip_dotted2 =
     [Lit CHR ''_'', Many1 Digit, Lit CHR ''.'', Many1 Digit, Many0 AnyChar, AtEnd]"

definition getBaseFileName :: "string \<Rightarrow> string" where
  "getBaseFileName f =
     js_remove strip_dotted2
       (js_remove strip_dashed
          (js_remove strip_iso_date
             (js_remove strip_dotted3 (basename f (extname f)))))"

text \<open>\<open>s.replace(p, '')\<close> for a string pattern: the first occurrence goes.\<close>

fun remove_first :: "string \<Rightarrow> string \<Rightarrow> string" where
  "remove_first p [] = []"
| "remove_first p (c # cs) =
     (if startsWith (c # cs) p then drop (length p) (c # cs) else c # remove_first p cs)"

text \<open>
  \<open>extractCleanFilename\<close>. \<open>decodeURIComponent\<close> is the platform's and is taken as
  the parameter \<open>decode\<close>; \<open>None\<close> from it is the \<open>URIError\<close>, which the \<open>catch\<close> turns
  into \<open>null\<close>.
\<close>

definition extractCleanFilename :: "(string \<Rightarrow> string option) \<Rightarrow> string \<Rightarrow> string option" where
  "extractCleanFilename decode u =
     (let part = rev (takeWhile (\<lambda>c. c \<noteq> CHR ''/'') (rev u));
          noquery = (if str_includes part ''?''
                     then takeWhile (\<lambda>c. c \<noteq> CHR ''?'') part else part)
      in
      case decode noquery of
        None \<Rightarrow> None
      | Some decoded \<Rightarrow>
          (let filename = (if str_includes decoded ''&signed=true''
                           then remove_first ''&signed=true'' decoded else decoded)
           in if filename \<noteq> [] \<and> filename \<noteq> ''download'' then Some filename else None))"

definition getFileExtension :: "string \<Rightarrow> string" where
  "getFileExtension u =
     (let urlLower = toLowerCase u in
      if str_includes urlLower ''.exe'' then ''.exe''
      else if str_includes urlLower ''.zip'' then ''.zip''
      else if str_includes urlLower ''.istapdata'' then ''.istapdata''
      else ''.bin'')"

text \<open>The fallback \<open>`${download.category}${version}${extension}`\<close>.\<close>

definition fallbackFileName :: "artifact \<Rightarrow> string" where
  "fallbackFileName d =
     category d @ (if version d \<noteq> ''unknown'' then ''_'' @ version d else [])
       @ getFileExtension (url d)"

definition unusable :: "string \<Rightarrow> bool" where
  "unusable fn = (fn = [] \<or> fn = ''download'' \<or> length fn < 5)"

text \<open>The file name \<open>BaseProvider.downloadFile\<close> settles on.\<close>

definition resolveFileName :: "(string \<Rightarrow> string option) \<Rightarrow> artifact \<Rightarrow> string" where
  "resolveFileName decode d =
     (case extractCleanFilename decode (url d) of
        None \<Rightarrow> fallbackFileName d
      | Some fn \<Rightarrow> if unusable fn then fallbackFileName d else fn)"

text \<open>The file name \<open>VWProvider.downloadFile\<close> settles on.\<close>

definition VW_resolveFileName :: "(string \<Rightarrow> string option) \<Rightarrow> artifact \<Rightarrow> string" where
  "VW_resolveFileName decode d =
     (case (if unusable (originalFilename d)
            then extractCleanFilename decode (url d)
            else Some (originalFilename d)) of
        None \<Rightarrow> fallbackFileName d
      | Some fn \<Rightarrow> if unusable fn then fallbackFileName d else fn)"

section \<open>Persistent state\<close>

text \<open>
  What reading a JSON state file gives: the file is missing, its text does not parse,
  or it parses to a value of the state type. JSON of another shape is outside the
  model.
\<close>

datatype 'a file_content = Missing | Unparsable | Parsed 'a

text \<open>
  An entry of the aggregate: \<open>{...providerData, lastUpdate, version}\<close>.
\<close>

record provider_entry = vendor_state +
  entry_version :: string

record aggregate_state =
  providers :: "string \<rightharpoonup> provider_entry"
  lastGlobalUpdate :: "nat option"
  agg_version :: string

definition empty_aggregate_state :: aggregate_state where
  "empty_aggregate_state =
     \<lparr>providers = Map.empty, lastGlobalUpdate = None, agg_version = ''1.0.0''\<rparr>"

datatype notification = NewVersions string "artifact list" | LoginFailure string string

text \<open>
  A provider instance with the part of the world it works on. \<open>dir\<close> lists the
  artifact files of the vendor directory with their sizes; a name is a key of this
  list, \<open>fs.access\<close> and \<open>fs.unlink\<close> fail exactly on a name that is not there, and
  writes succeed. The vendor's metadata file lives in the same directory under a name
  ending in \<open>.json\<close> and is kept apart as \<open>metadata_file\<close>. \<open>reads\<close> counts the
  clock readings (\<open>new Date()\<close>) taken so far: the \<open>k\<close>-th reading is \<open>clk k\<close> for the
  clock \<open>clk\<close> the operations are given. \<open>notifications\<close> are the calls made to the
  e-mail service, oldest first.
\<close>

record provider =
  providerName :: string
  downloadDir :: string
  isLoggedIn :: bool
  metadata :: vendor_state
  dir :: "(string \<times> nat) list"
  metadata_file :: "vendor_state file_content"
  global_file :: "aggregate_state file_content"
  reads :: nat
  notifications :: "notification list"

subsection \<open>MetadataManager\<close>

fun loadGlobalMetadata :: "aggregate_state file_content \<Rightarrow> aggregate_state" where
  "loadGlobalMetadata (Parsed g) = g"
| "loadGlobalMetadata Missing = empty_aggregate_state"
| "loadGlobalMetadata Unparsable = empty_aggregate_state"

text \<open>
  The synchronous middle of \<open>updateProviderMetadata\<close>: the entry of the provider is
  replaced and \<open>lastGlobalUpdate\<close> set, with two clock readings \<open>t1\<close> and \<open>t2\<close>.
\<close>

definition provider_update ::
  "string \<Rightarrow> vendor_state \<Rightarrow> nat \<Rightarrow> nat \<Rightarrow> aggregate_state \<Rightarrow> aggregate_state"
where
  "provider_update name providerData t1 t2 g =
     g\<lparr>providers := (providers g)(name \<mapsto>
          \<lparr>lastUpdate = Some t1, downloads = downloads providerData,
           entry_version = agg_version g\<rparr>),
       lastGlobalUpdate := Some t2\<rparr>"

text \<open>
  \<open>updateProviderMetadata\<close> as one provider sees it when no other vendor loop touches
  the aggregate file while the call is in progress. The steps the call takes on the
  file, and what two calls in progress at once do to it, are the subject of the
  section on concurrent updates.
\<close>

definition updateProviderMetadata :: "(nat \<Rightarrow> nat) \<Rightarrow> provider \<Rightarrow> provider" where
  "updateProviderMetadata clk s =
     s\<lparr>global_file :=
          Parsed (provider_update (providerName s) (metadata s)
                    (clk (reads s)) (clk (Suc (reads s)))
                    (loadGlobalMetadata (global_file s))),
       reads := reads s + 2\<rparr>"

subsection \<open>BaseProvider: metadata\<close>

text \<open>
  \<open>loadMetadata\<close>: the vendor file, or the empty shape when reading it fails. The
  aggregate is loaded as well, for a debug message only.
\<close>

definition loadMetadata :: "provider \<Rightarrow> provider" where
  "loadMetadata s =
     s\<lparr>metadata := (case metadata_file s of
                       Parsed m \<Rightarrow> m
                     | Missing \<Rightarrow> empty_vendor_state
                     | Unparsable \<Rightarrow> empty_vendor_state)\<rparr>"

definition writeMetadataFile :: "provider \<Rightarrow> provider" where
  "writeMetadataFile s = s\<lparr>metadata_file := Parsed (metadata s)\<rparr>"

definition updateMetadata ::
  "(nat \<Rightarrow> nat) \<Rightarrow> string \<Rightarrow> artifact_record \<Rightarrow> provider \<Rightarrow> provider"
where
  "updateMetadata clk c data s =
     (let ds = (case downloads (metadata s) of None \<Rightarrow> Map.empty | Some ds \<Rightarrow> ds);
          m = \<lparr>lastUpdate = Some (clk (reads s)), downloads = Some (ds(c \<mapsto> data))\<rparr>
      in updateProviderMetadata clk
           (writeMetadataFile (s\<lparr>metadata := m, reads := Suc (reads s)\<rparr>)))"

definition updateLastCheck :: "(nat \<Rightarrow> nat) \<Rightarrow> provider \<Rightarrow> provider" where
  "updateLastCheck clk s =
     updateProviderMetadata clk
       (writeMetadataFile
          (s\<lparr>metadata := (metadata s)\<lparr>lastUpdate := Some (clk (reads s))\<rparr>,
             reads := Suc (reads s)\<rparr>))"

subsection \<open>BaseProvider: files\<close>

definition file_exists :: "string \<Rightarrow> (string \<times> nat) list \<Rightarrow> bool" where
  "file_exists f d = (f \<in> set (map fst d))"

text \<open>\<open>fs.unlink\<close>: \<open>None\<close> is the rejection for a file that is not there.\<close>

definition unlink :: "string \<Rightarrow> (string \<times> nat) list \<Rightarrow> (string \<times> nat) list option" where
  "unlink f d = (if file_exists f d then Some (AList.delete f d) else None)"

text \<open>\<open>try { await fs.unlink(filePath) } catch (e) { }\<close>.\<close>

definition unlink_quiet :: "string \<Rightarrow> provider \<Rightarrow> provider" where
  "unlink_quiet f s = (case unlink f (dir s) of None \<Rightarrow> s | Some d \<Rightarrow> s\<lparr>dir := d\<rparr>)"

definition write_file :: "string \<Rightarrow> nat \<Rightarrow> provider \<Rightarrow> provider" where
  "write_file f n s = s\<lparr>dir := AList.update f n (dir s)\<rparr>"

text \<open>The body of the loop of \<open>cleanupSimilarFiles\<close> for one entry of \<open>readdir\<close>.\<close>

definition similar_step :: "string \<Rightarrow> (string \<times> nat) list \<Rightarrow> string \<Rightarrow> (string \<times> nat) list" where
  "similar_step newFileName d file =
     (if endsWith file ''.json'' \<or> file = newFileName then d
      else if getBaseFileName file = getBaseFileName newFileName \<and>
              extname file = extname newFileName
      then (case unlink file d of None \<Rightarrow> d | Some d' \<Rightarrow> d')
      else d)"

definition cleanupSimilarFiles :: "string \<Rightarrow> provider \<Rightarrow> provider" where
  "cleanupSimilarFiles newFileName s =
     s\<lparr>dir := foldl (similar_step newFileName) (dir s) (map fst (dir s))\<rparr>"

definition cleanupOldVersions :: "(nat \<Rightarrow> nat) \<Rightarrow> string \<Rightarrow> string \<Rightarrow> provider \<Rightarrow> provider" where
  "cleanupOldVersions clk c newFileName s =
     cleanupSimilarFiles newFileName
       (case downloads (metadata s) of
          None \<Rightarrow> s
        | Some ds \<Rightarrow>
            (case ds c of
               None \<Rightarrow> s
             | Some existingDownload \<Rightarrow>
                 if fileName existingDownload \<noteq> [] \<and>
                    fileName existingDownload \<noteq> newFileName
                 then
                   (case unlink (fileName existingDownload) (dir s) of
                      None \<Rightarrow> s
                    | Some d \<Rightarrow>
                        updateProviderMetadata clk
                          (writeMetadataFile
                             (s\<lparr>dir := d,
                                metadata := (metadata s)\<lparr>downloads := Some (ds(c := None))\<rparr>\<rparr>)))
                 else s))"

text \<open>
  How the transfer goes.
  \<^item> \<open>RequestFailed\<close>: reading the cookies or the request itself throws, before the
    write stream is created.
  \<^item> \<open>WriteFailed\<close>: the write stream emits \<open>error\<close>, so the promise rejects: the file
    could not be opened (\<open>None\<close>, nothing is written), or writing failed after \<open>n\<close> bytes
    had reached the file (\<open>Some n\<close>).
  \<^item> \<open>SourceBroken\<close>: the response stream breaks after \<open>n\<close> bytes. \<open>pipe\<close> does not
    pass the error of its source on to the write stream, which then neither finishes
    nor fails; the promise has handlers for \<open>finish\<close> and \<open>error\<close> of the write stream
    only and never settles, so \<open>downloadFile\<close> does not return.
  \<^item> \<open>Completed\<close>: the write stream finishes with \<open>n\<close> bytes in the file.
\<close>

datatype transfer = RequestFailed | WriteFailed "nat option" | SourceBroken nat | Completed nat

text \<open>The transfers after which the promise of \<open>downloadFile\<close> settles.\<close>

fun settles :: "transfer \<Rightarrow> bool" where
  "settles (SourceBroken n) = False"
| "settles RequestFailed = True"
| "settles (WriteFailed w) = True"
| "settles (Completed n) = True"

text \<open>The record \<open>{...download, fileName, filePath, fileSize, downloadedAt}\<close>.\<close>

definition make_record :: "artifact \<Rightarrow> string \<Rightarrow> string \<Rightarrow> nat \<Rightarrow> nat \<Rightarrow> artifact_record" where
  "make_record d fn fp n t =
     \<lparr>title = title d, url = url d, method_tag = method_tag d,
      actualFilename = actualFilename d, category = category d, appType = appType d,
      displayName = displayName d, version = version d,
      originalFilename = originalFilename d,
      fileName = fn, filePath = fp, fileSize = n, downloadedAt = t\<rparr>"

text \<open>
  \<open>downloadFile\<close> from the point where the file name is settled; the code after that
  point is the same in \<open>BaseProvider\<close> and \<open>VWProvider\<close>. The result is \<open>None\<close> when
  the call does not return, and otherwise the returned boolean with the state left
  behind. Every failure that the inner \<open>catch\<close> sees is followed by the attempt to
  unlink the file.
\<close>

definition downloadTo ::
  "(nat \<Rightarrow> nat) \<Rightarrow> string \<Rightarrow> artifact \<Rightarrow> transfer \<Rightarrow> provider
     \<Rightarrow> (bool \<times> provider) option"
where
  "downloadTo clk fn d tr s0 =
     (let s = cleanupOldVersions clk (category d) fn s0;
          filePath = downloadDir s @ ''/'' @ fn
      in
      case tr of
        RequestFailed \<Rightarrow> Some (False, unlink_quiet fn s)
      | WriteFailed None \<Rightarrow> Some (False, unlink_quiet fn s)
      | WriteFailed (Some n) \<Rightarrow> Some (False, unlink_quiet fn (write_file fn n s))
      | SourceBroken n \<Rightarrow> None
      | Completed n \<Rightarrow>
          (let s1 = write_file fn n s in
           if 0 < n then
             Some (True,
              updateMetadata clk (category d)
                (make_record d fn filePath n (clk (reads s1)))
                (s1\<lparr>reads := Suc (reads s1)\<rparr>))
           else Some (False, unlink_quiet fn s1)))"

definition downloadFile ::
  "(string \<Rightarrow> string option) \<Rightarrow> (nat \<Rightarrow> nat) \<Rightarrow> artifact \<Rightarrow> transfer \<Rightarrow> provider
     \<Rightarrow> (bool \<times> provider) option"
where
  "downloadFile decode clk d tr s = downloadTo clk (resolveFileName decode d) d tr s"

definition VW_downloadFile ::
  "(string \<Rightarrow> string option) \<Rightarrow> (nat \<Rightarrow> nat) \<Rightarrow> artifact \<Rightarrow> transfer \<Rightarrow> provider
     \<Rightarrow> (bool \<times> provider) option"
where
  "VW_downloadFile decode clk d tr s = downloadTo clk (VW_resolveFileName decode d) d tr s"

text \<open>
  Three notions for stating what the cleanup does. A file \<open>f\<close> is a look-alike of the
  new file when the scan of \<open>cleanupSimilarFiles\<close> would remove it: it is not a
  \<open>.json\<close> file, it is not the new file, and it has the base name and the extension of
  the new file. \<open>f\<close> is the superseded file of category \<open>c\<close> when the record of \<open>c\<close>
  names it and it is not the new file. The record of \<open>c\<close> is dropped by the cleanup
  when its file is superseded and still on disk.
\<close>

definition look_alike :: "string \<Rightarrow> string \<Rightarrow> bool" where
  "look_alike newFileName f =
     (\<not> endsWith f ''.json'' \<and> f \<noteq> newFileName \<and>
      getBaseFileName f = getBaseFileName newFileName \<and> extname f = extname newFileName)"

definition superseded_file :: "string \<Rightarrow> string \<Rightarrow> provider \<Rightarrow> string \<Rightarrow> bool" where
  "superseded_file c newFileName s f =
     (case record_of (metadata s) c of
        None \<Rightarrow> False
      | Some r \<Rightarrow> fileName r = f \<and> f \<noteq> [] \<and> f \<noteq> newFileName)"

definition drops_record :: "string \<Rightarrow> string \<Rightarrow> provider \<Rightarrow> bool" where
  "drops_record c newFileName s =
     (case record_of (metadata s) c of
        None \<Rightarrow> False
      | Some r \<Rightarrow> superseded_file c newFileName s (fileName r) \<and> file_exists (fileName r) (dir s))"

text \<open>
  The cleanup example: the category \<open>installer\<close> is recorded with the file
  \<open>Tool_1.0.0.exe\<close>, which is on disk, and the portal now offers \<open>Tool_1.1.0.exe\<close>.
  \<open>plain_decode\<close> is \<open>decodeURIComponent\<close> on names without escapes, and \<open>tick_clock\<close>
  a clock that advances by one with each reading.
\<close>

definition plain_decode :: "string \<Rightarrow> string option" where
  "plain_decode x = Some x"

definition tick_clock :: "nat \<Rightarrow> nat" where
  "tick_clock k = 1000 + k"

definition tool_record :: artifact_record where
  "tool_record =
     \<lparr>title = ''Installationsprogramm'', url = ''https://host/api/v2/downloads/Tool_1.0.0.exe'',
      method_tag = ''link_search_main'', actualFilename = [],
      category = ''installer'', appType = ''ista-p'',
      displayName = ''Installationsprogramm ISTA/P'', version = ''1.0.0'',
      originalFilename = [],
      fileName = ''Tool_1.0.0.exe'', filePath = ''/data/bmw/Tool_1.0.0.exe'',
      fileSize = 100, downloadedAt = 1\<rparr>"

definition tool_update :: artifact where
  "tool_update =
     \<lparr>title = ''Installationsprogramm'', url = ''https://host/api/v2/downloads/Tool_1.1.0.exe'',
      method_tag = ''link_search_main'', actualFilename = [],
      category = ''installer'', appType = ''ista-p'',
      displayName = ''Installationsprogramm ISTA/P'', version = ''1.1.0'',
      originalFilename = []\<rparr>"

definition tool_state :: provider where
  "tool_state =
     \<lparr>providerName = ''bmw'', downloadDir = ''/data/bmw'', isLoggedIn = True,
      metadata = \<lparr>lastUpdate = Some 1, downloads = Some [''installer'' \<mapsto> tool_record]\<rparr>,
      dir = [(''Tool_1.0.0.exe'', 100)],
      metadata_file =
        Parsed \<lparr>lastUpdate = Some 1, downloads = Some [''installer'' \<mapsto> tool_record]\<rparr>,
      global_file = Missing, reads = 0, notifications = []\<rparr>"

text \<open>
  The same replacement for an artifact that is itself a \<open>.json\<close> file, with one more
  stale variant of it on disk.
\<close>

definition json_record :: artifact_record where
  "json_record =
     tool_record\<lparr>url := ''https://host/api/v2/downloads/Tool_0.9.0.json'',
       version := ''0.9.0'', fileName := ''Tool_0.9.0.json'',
       filePath := ''/data/bmw/Tool_0.9.0.json''\<rparr>"

definition json_update :: artifact where
  "json_update = tool_update\<lparr>url := ''https://host/api/v2/downloads/Tool_1.1.0.json''\<rparr>"

definition json_state :: provider where
  "json_state =
     tool_state\<lparr>
       metadata := \<lparr>lastUpdate = Some 1, downloads = Some [''installer'' \<mapsto> json_record]\<rparr>,
       dir := [(''Tool_0.9.0.json'', 100), (''Tool_1.0.0.json'', 100)]\<rparr>"

section \<open>Login\<close>

text \<open>
  A page operation that may reject is an optional error message: \<open>None\<close> when it
  resolves, \<open>Some msg\<close> when it throws \<open>msg\<close>. \<open>first_error\<close> runs such operations in
  order and stops at the first that throws.
\<close>

fun first_error :: "string option list \<Rightarrow> string option" where
  "first_error [] = None"
| "first_error (None # xs) = first_error xs"
| "first_error (Some e # xs) = Some e"

definition sendLoginFailureNotification :: "string \<Rightarrow> provider \<Rightarrow> provider" where
  "sendLoginFailureNotification errorMessage s =
     s\<lparr>notifications := notifications s @ [LoginFailure (providerName s) errorMessage]\<rparr>"

subsection \<open>BMW\<close>

text \<open>What the browser does during one call of \<open>BMWProvider.login\<close>.\<close>

record bmw_login_page =
  goto_auth :: "string option"
  wait_for_form :: "string option"
  fill_username :: "string option"
  fill_password :: "string option"
  click_submit :: "string option"
  wait_startpage :: "string option"
  wait_aos :: "string option"
  wait_networkidle :: "string option"
  url_after :: string

text \<open>The \<open>try\<close> block of \<open>login\<close>: \<open>None\<close> when it reaches \<open>return true\<close>.\<close>

definition BMW_login_attempt :: "bmw_login_page \<Rightarrow> string option" where
  "BMW_login_attempt p =
     (case first_error
             [goto_auth p, wait_for_form p, fill_username p, fill_password p, click_submit p,
              (case wait_startpage p of None \<Rightarrow> None | Some e \<Rightarrow> wait_aos p),
              wait_networkidle p] of
        Some e \<Rightarrow> Some e
      | None \<Rightarrow>
          if str_includes (url_after p) ''startpage-workshop'' \<or>
             str_includes (url_after p) ''aos.bmwgroup.com''
          then None
          else Some (''Login verification failed - URL: '' @ url_after p))"

definition BMW_login :: "bmw_login_page \<Rightarrow> provider \<Rightarrow> bool \<times> provider" where
  "BMW_login p s =
     (if isLoggedIn s then (True, s)
      else case BMW_login_attempt p of
             None \<Rightarrow> (True, s\<lparr>isLoggedIn := True\<rparr>)
           | Some msg \<Rightarrow> (False, sendLoginFailureNotification msg s))"

subsection \<open>VW\<close>

text \<open>
  One round of the polling loop: \<open>checkLoginStatus\<close> saw both markers, it did not, or
  one of the page operations of the round threw.
\<close>

datatype probe = Seen | NotSeen | Threw string

record vw_login_page =
  vw_goto_auth :: "string option"
  vw_wait_for_form :: "string option"
  vw_fill_username :: "string option"
  vw_fill_password :: "string option"
  vw_click_submit :: "string option"
  polls :: "nat \<Rightarrow> probe"
  vw_url_after :: string

text \<open>
  What \<open>VWProvider.login\<close> throws inside its \<open>try\<close> block. The \<open>catch\<close> only logs the
  message, so the error is kept as data: a page error, or the failed verification with
  the number of attempts and the URL.
\<close>

datatype vw_login_error = PageError string | NotVerified nat string

text \<open>
  \<open>while (!loginSuccess && attempts < maxAttempts)\<close> with \<open>maxAttempts = 10\<close>; the
  result is \<open>loginSuccess\<close> and \<open>attempts\<close> after the loop.
\<close>

function VW_poll :: "(nat \<Rightarrow> probe) \<Rightarrow> nat \<Rightarrow> string + bool \<times> nat" where
  "VW_poll pl attempts =
     (if attempts < 10 then
        (case pl (Suc attempts) of
           Seen \<Rightarrow> Inr (True, Suc attempts)
         | Threw e \<Rightarrow> Inl e
         | NotSeen \<Rightarrow> VW_poll pl (Suc attempts))
      else Inr (False, attempts))"
  by pat_completeness auto
termination
  by (relation "measure (\<lambda>(pl, attempts). 10 - attempts)") auto

definition VW_login_attempt :: "vw_login_page \<Rightarrow> vw_login_error option" where
  "VW_login_attempt p =
     (case first_error
             [vw_goto_auth p, vw_wait_for_form p, vw_fill_username p, vw_fill_password p,
              vw_click_submit p] of
        Some e \<Rightarrow> Some (PageError e)
      | None \<Rightarrow>
          (case VW_poll (polls p) 0 of
             Inl e \<Rightarrow> Some (PageError e)
           | Inr (loginSuccess, attempts) \<Rightarrow>
               if loginSuccess then None
               else if str_includes (vw_url_after p) ''erwin'' \<or>
                       str_includes (vw_url_after p) ''volkswagen''
               then None
               else Some (NotVerified attempts (vw_url_after p))))"

definition VW_login :: "vw_login_page \<Rightarrow> provider \<Rightarrow> bool \<times> provider" where
  "VW_login p s =
     (if isLoggedIn s then (True, s)
      else case VW_login_attempt p of
             None \<Rightarrow> (True, s\<lparr>isLoggedIn := True\<rparr>)
           | Some e \<Rightarrow> (False, s))"

text \<open>
  A login that the portal turns down: the form is filled and submitted, the markers
  never show in ten rounds, and the browser stays on a page outside the portal.
\<close>

definition no_marker :: "nat \<Rightarrow> probe" where
  "no_marker k = NotSeen"

definition vw_denied_page :: vw_login_page where
  "vw_denied_page =
     \<lparr>vw_goto_auth = None, vw_wait_for_form = None, vw_fill_username = None,
      vw_fill_password = None, vw_click_submit = None, polls = no_marker,
      vw_url_after = ''https://login.example.com/denied''\<rparr>"

definition bmw_denied_page :: bmw_login_page where
  "bmw_denied_page =
     \<lparr>goto_auth = None, wait_for_form = None, fill_username = None, fill_password = None,
      click_submit = None, wait_startpage = None, wait_aos = None, wait_networkidle = None,
      url_after = ''https://login.example.com/denied''\<rparr>"

definition fresh_provider :: "string \<Rightarrow> provider" where
  "fresh_provider name =
     \<lparr>providerName = name, downloadDir = ''/data/'' @ name, isLoggedIn = False,
      metadata = empty_vendor_state, dir = [], metadata_file = Missing,
      global_file = Missing, reads = 0, notifications = []\<rparr>"

section \<open>Concurrent updates of the aggregate file\<close>

text \<open>
  The aggregate file as it is on disk: absent, or a text of some length that parses to
  an aggregate (\<open>Some\<close>) or does not parse (\<open>None\<close>).
\<close>

datatype disk_file = Absent | Text nat "aggregate_state option"

text \<open>What \<open>fs.readFile\<close> followed by \<open>JSON.parse\<close> makes of the file.\<close>

fun read_disk :: "disk_file \<Rightarrow> aggregate_state file_content" where
  "read_disk Absent = Missing"
| "read_disk (Text n None) = Unparsable"
| "read_disk (Text n (Some g)) = Parsed g"

text \<open>
  \<open>fs.writeFile\<close> is not one step. It opens the file with the flag \<open>w\<close>, which creates
  or truncates it: the file is then the empty text, which does not parse. Afterwards it
  writes the text at the start of the file through its own descriptor. If the file is
  no longer than the text, the file is then exactly that text. If another writer has
  put a longer text there in the meantime, the end of that text stays behind the new
  one, and \<open>JSON.parse\<close> rejects the result. There is no temporary file and no rename.
\<close>

definition open_truncate :: "disk_file \<Rightarrow> disk_file" where
  "open_truncate f = Text 0 None"

definition write_text :: "nat \<Rightarrow> aggregate_state \<Rightarrow> disk_file \<Rightarrow> disk_file" where
  "write_text n g f =
     (case f of
        Absent \<Rightarrow> Text n (Some g)
      | Text m x \<Rightarrow> if m \<le> n then Text n (Some g) else Text m None)"

text \<open>
  \<open>updateProviderMetadata\<close> is an \<open>async\<close> function, and the other vendor loops of the
  process run while it waits. A writer is one call in progress; it takes three steps
  that touch the file.
  \<^item> From \<open>Waiting\<close>: \<open>loadGlobalMetadata\<close> reads and parses the file; the call then sets
    its entry and \<open>lastGlobalUpdate\<close> in the object it got, with two clock readings,
    and holds the object while \<open>fs.mkdir\<close> (which leaves the file alone) is awaited.
  \<^item> From \<open>Holding\<close>: \<open>fs.writeFile\<close> opens the file and truncates it.
  \<^item> From \<open>Opened\<close>: \<open>fs.writeFile\<close> writes the text of the object and closes.

  The shared part is the file and the count of clock readings. \<open>len\<close> gives the length
  of the text \<open>JSON.stringify\<close> makes of an aggregate. The texts are taken to be short
  enough for the read and the write each to be one operation on the file.
\<close>

datatype phase =
  Waiting | Holding aggregate_state | Opened aggregate_state | Saved

record writer =
  w_name :: string
  w_data :: vendor_state
  w_phase :: phase

definition writer_step ::
  "(aggregate_state \<Rightarrow> nat) \<Rightarrow> (nat \<Rightarrow> nat) \<Rightarrow> (disk_file \<times> nat) \<times> writer
     \<Rightarrow> (disk_file \<times> nat) \<times> writer"
where
  "writer_step len clk x =
     (case x of ((file, r), w) \<Rightarrow>
        (case w_phase w of
           Waiting \<Rightarrow>
             ((file, r + 2),
              w\<lparr>w_phase := Holding
                   (provider_update (w_name w) (w_data w) (clk r) (clk (Suc r))
                      (loadGlobalMetadata (read_disk file)))\<rparr>)
         | Holding g \<Rightarrow> ((open_truncate file, r), w\<lparr>w_phase := Opened g\<rparr>)
         | Opened g \<Rightarrow> ((write_text (len g) g file, r), w\<lparr>w_phase := Saved\<rparr>)
         | Saved \<Rightarrow> ((file, r), w)))"

text \<open>
  A schedule names, step by step, which of two writers runs next (\<open>True\<close> for the
  first).
\<close>

fun run_schedule ::
  "(aggregate_state \<Rightarrow> nat) \<Rightarrow> (nat \<Rightarrow> nat) \<Rightarrow> bool list
     \<Rightarrow> (disk_file \<times> nat) \<times> writer \<times> writer
     \<Rightarrow> (disk_file \<times> nat) \<times> writer \<times> writer"
where
  "run_schedule len clk [] x = x"
| "run_schedule len clk (True # sched) (sh, a, b) =
     (case writer_step len clk (sh, a) of (sh', a') \<Rightarrow> run_schedule len clk sched (sh', a', b))"
| "run_schedule len clk (False # sched) (sh, a, b) =
     (case writer_step len clk (sh, b) of (sh', b') \<Rightarrow> run_schedule len clk sched (sh', a, b'))"

definition new_writer :: "string \<Rightarrow> vendor_state \<Rightarrow> writer" where
  "new_writer name providerData = \<lparr>w_name = name, w_data = providerData, w_phase = Waiting\<rparr>"

text \<open>Four schedules of two updates.\<close>

definition one_after_the_other :: "bool list" where
  "one_after_the_other = [True, True, True, False, False, False]"

definition loads_before_saves :: "bool list" where
  "loads_before_saves = [True, False, True, True, False, False]"

definition load_into_truncated_file :: "bool list" where
  "load_into_truncated_file = [True, True, False, True, False, False]"

definition overlapping_saves :: "bool list" where
  "overlapping_saves = [True, False, True, False, True, False]"

text \<open>The file after a run, and the aggregate as the next reader finds it.\<close>

definition file_after ::
  "(disk_file \<times> nat) \<times> writer \<times> writer \<Rightarrow> aggregate_state file_content"
where
  "file_after x = read_disk (fst (fst x))"

definition aggregate_after ::
  "(disk_file \<times> nat) \<times> writer \<times> writer \<Rightarrow> aggregate_state"
where
  "aggregate_after x = loadGlobalMetadata (file_after x)"

definition both_saved :: "(disk_file \<times> nat) \<times> writer \<times> writer \<Rightarrow> bool" where
  "both_saved x = (w_phase (fst (snd x)) = Saved \<and> w_phase (snd (snd x)) = Saved)"

section \<open>VW categorization\<close>

definition VW_downloadCategories :: "string \<Rightarrow> (string \<times> string) list" where
  "VW_downloadCategories app =
     (if app = ''odis_service'' then
        [(''installation'', ''ODIS-Service Installation''), (''update'', ''ODIS-Service Update'')]
      else if app = ''fmc'' then [(''installer'', ''FMC-Installer'')]
      else [])"

text \<open>
  The chain of \<open>VWProvider.categorizeDownloads\<close> on the lowercased title \<open>t\<close>: the
  application type and the category, or \<open>None\<close> when both stay \<open>null\<close>.
\<close>

definition VW_rule :: "string \<Rightarrow> (string \<times> string) option" where
  "VW_rule t =
     (if (str_includes t ''odis-service'' \<or> str_includes t ''odis_service'') \<and>
         (str_includes t ''installation'' \<or> str_includes t ''install'')
      then Some (''odis_service'', ''installation'')
      else if (str_includes t ''odis-service'' \<or> str_includes t ''odis_service'') \<and>
              (str_includes t ''update'' \<or> str_includes t ''update'')
      then Some (''odis_service'', ''update'')
      else if (str_includes t ''fmc'' \<or> str_includes t ''flashmediacreator'' \<or>
               str_includes t ''flashmedia'' \<or> str_includes t ''FMC-Installer'') \<and>
              (str_includes t ''installer'' \<or> str_includes t ''install'' \<or>
               str_includes t ''download'' \<or> str_includes t ''FMC-Installer'')
      then Some (''fmc'', ''installer'')
      else None)"

text \<open>\<open>download.actualFilename || download.title\<close>.\<close>

definition resolved_name :: "candidate \<Rightarrow> string" where
  "resolved_name d = (if actualFilename d \<noteq> [] then actualFilename d else title d)"

definition VW_artifact :: "string \<Rightarrow> string \<Rightarrow> candidate \<Rightarrow> artifact" where
  "VW_artifact app c d =
     \<lparr>title = title d, url = url d, method_tag = method_tag d,
      actualFilename = actualFilename d,
      category = c, appType = app,
      displayName = (case map_of (VW_downloadCategories app) c of
                       Some n \<Rightarrow> n
                     | None \<Rightarrow> []),
      version = VW_extractVersion (url d) (resolved_name d),
      originalFilename = resolved_name d\<rparr>"

definition VW_categorize_one ::
  "string list \<Rightarrow> (string \<times> artifact) list \<Rightarrow> candidate \<Rightarrow> (string \<times> artifact) list"
where
  "VW_categorize_one downloadFilter categorized d =
     (if \<not> matchesFilter downloadFilter (title d) then categorized
      else
        (case VW_rule (toLowerCase (title d)) of
           None \<Rightarrow> categorized
         | Some (app, c) \<Rightarrow>
             if map_of categorized c = None
             then categorized @ [(c, VW_artifact app c d)]
             else categorized))"

definition VW_categorizeDownloads ::
  "string list \<Rightarrow> candidate list \<Rightarrow> (string \<times> artifact) list"
where
  "VW_categorizeDownloads downloadFilter ds = foldl (VW_categorize_one downloadFilter) [] ds"

text \<open>
  The same two notions for VW: the application type the chain gives a candidate, and
  that a candidate passes the allow-list and the chain gives it category \<open>c\<close>.
\<close>

definition VW_app_of :: "candidate \<Rightarrow> string" where
  "VW_app_of d = (case VW_rule (toLowerCase (title d)) of None \<Rightarrow> [] | Some (app, c) \<Rightarrow> app)"

definition VW_accepts :: "string list \<Rightarrow> string \<Rightarrow> candidate \<Rightarrow> bool" where
  "VW_accepts downloadFilter c d =
     (matchesFilter downloadFilter (title d) \<and>
      (case VW_rule (toLowerCase (title d)) of None \<Rightarrow> False | Some (app, c') \<Rightarrow> c' = c))"

section \<open>The check cycle\<close>

text \<open>
  What one application surface shows in a cycle: whether the navigation to it
  succeeds, and the raw candidates the page scan returns (\<open>None\<close> when the scan throws
  and \<open>findDownloads\<close> returns \<open>{}\<close>).
\<close>

record surface =
  navigation_ok :: bool
  found :: "candidate list option"

definition sendNewVersionNotification :: "artifact list \<Rightarrow> provider \<Rightarrow> provider" where
  "sendNewVersionNotification updates s =
     (if updates = [] then s
      else s\<lparr>notifications := notifications s @ [NewVersions (providerName s) updates]\<rparr>)"

text \<open>
  The download loop \<open>for (let i = 0; i < updates.length; i++)\<close>: the successful
  updates, the count of failures and the state after it. \<open>dl\<close> is the provider's
  \<open>downloadFile\<close> and \<open>tr\<close> tells how the transfer of each artifact goes. The loop
  awaits each download, so it does not return (\<open>None\<close>) when one of them does not.
\<close>

fun download_each ::
  "(artifact \<Rightarrow> transfer \<Rightarrow> provider \<Rightarrow> (bool \<times> provider) option) \<Rightarrow> (artifact \<Rightarrow> transfer)
     \<Rightarrow> artifact list \<Rightarrow> provider \<Rightarrow> (artifact list \<times> nat \<times> provider) option"
where
  "download_each dl tr [] s = Some ([], 0, s)"
| "download_each dl tr (u # us) s =
     (case dl u (tr u) s of
        None \<Rightarrow> None
      | Some (success, s1) \<Rightarrow>
          (case download_each dl tr us s1 of
             None \<Rightarrow> None
           | Some (successful, failCount, s2) \<Rightarrow>
               if success then Some (u # successful, failCount, s2)
               else Some (successful, Suc failCount, s2)))"

text \<open>The updates: the categorized downloads that \<open>isNewVersion\<close> accepts.\<close>

definition new_updates :: "vendor_state \<Rightarrow> (string \<times> artifact) list \<Rightarrow> artifact list" where
  "new_updates m categorized =
     map snd (filter (\<lambda>(c, d). isNewVersion m c (version d)) categorized)"

subsection \<open>BMW\<close>

record bmw_cycle =
  login_page :: bmw_login_page
  surface_of :: "string \<Rightarrow> surface"
  transfer_of :: "artifact \<Rightarrow> transfer"

text \<open>
  \<open>checkApplicationUpdates\<close> returns \<open>{successCount, failCount}\<close>; \<open>None\<close> when it does
  not return.
\<close>

definition BMW_checkApplicationUpdates ::
  "bmw_config \<Rightarrow> bmw_cycle \<Rightarrow> (string \<Rightarrow> string option) \<Rightarrow> (nat \<Rightarrow> nat) \<Rightarrow> string
     \<Rightarrow> provider \<Rightarrow> ((nat \<times> nat) \<times> provider) option"
where
  "BMW_checkApplicationUpdates cfg env decode clk app s =
     (if \<not> navigation_ok (surface_of env app) then Some ((0, 0), s)
      else
        (let categorized = (case found (surface_of env app) of
                              None \<Rightarrow> []
                            | Some ds \<Rightarrow> BMW_categorizeDownloads cfg ds app);
             updates = new_updates (metadata s) categorized
         in
         if updates = [] then Some ((0, 0), s)
         else
           (case download_each (downloadFile decode clk) (transfer_of env) updates s of
              None \<Rightarrow> None
            | Some (successful, failCount, s1) \<Rightarrow>
                Some ((length successful, failCount),
                      sendNewVersionNotification successful s1))))"

text \<open>
  \<open>BMWProvider.checkForUpdates\<close> returns nothing, on the early \<open>return\<close> after a failed
  login as well as at its end; the result is the state it leaves, or \<open>None\<close> when it
  does not return. The two pairs of counts are added up for a log message only.
\<close>

definition BMW_checkForUpdates ::
  "bmw_config \<Rightarrow> bmw_cycle \<Rightarrow> (string \<Rightarrow> string option) \<Rightarrow> (nat \<Rightarrow> nat)
     \<Rightarrow> provider \<Rightarrow> provider option"
where
  "BMW_checkForUpdates cfg env decode clk s =
     (case (if \<not> isLoggedIn s then BMW_login (login_page env) s else (True, s)) of
        (loginSuccess, s0) \<Rightarrow>
          if \<not> loginSuccess then Some s0
          else
            (case BMW_checkApplicationUpdates cfg env decode clk ''ista-p'' s0 of
               None \<Rightarrow> None
             | Some (istaPSuccess, s1) \<Rightarrow>
                 (case BMW_checkApplicationUpdates cfg env decode clk ''ista-next'' s1 of
                    None \<Rightarrow> None
                  | Some (istaNextSuccess, s2) \<Rightarrow> Some (updateLastCheck clk s2))))"

text \<open>
  The login of the cycle succeeds: the provider is logged in already, or the \<open>try\<close>
  block of \<open>login\<close> runs to its end on what the browser does.
\<close>

definition BMW_login_succeeds :: "bmw_cycle \<Rightarrow> provider \<Rightarrow> bool" where
  "BMW_login_succeeds env s = (isLoggedIn s \<or> BMW_login_attempt (login_page env) = None)"

subsection \<open>VW\<close>

record vw_cycle =
  status_before :: bool
  first_login :: vw_login_page
  navigation_error :: "string option"
  status_after :: bool
  second_login :: vw_login_page
  vw_found :: "candidate list option"
  vw_transfer_of :: "artifact \<Rightarrow> transfer"

definition VW_navigateToDownloads :: "vw_cycle \<Rightarrow> provider \<Rightarrow> bool \<times> provider" where
  "VW_navigateToDownloads env s =
     (case navigation_error env of
        Some e \<Rightarrow> (False, s)
      | None \<Rightarrow>
          if status_after env then (True, s)
          else VW_login (second_login env) (s\<lparr>isLoggedIn := False\<rparr>))"

text \<open>
  \<open>VWProvider.checkForUpdates\<close> returns \<open>{successCount, failCount}\<close> at its end and
  nothing on its two early \<open>return\<close>s (after a failed login, after a failed
  navigation); the outer \<open>None\<close> is the call that does not return.
\<close>

definition VW_checkForUpdates ::
  "string list \<Rightarrow> vw_cycle \<Rightarrow> (string \<Rightarrow> string option) \<Rightarrow> (nat \<Rightarrow> nat)
     \<Rightarrow> provider \<Rightarrow> ((nat \<times> nat) option \<times> provider) option"
where
  "VW_checkForUpdates downloadFilter env decode clk s =
     (case (if \<not> status_before env \<or> \<not> isLoggedIn s
            then VW_login (first_login env) s else (True, s)) of
        (loginSuccess, s0) \<Rightarrow>
          if \<not> loginSuccess then Some (None, s0)
          else
            (case VW_navigateToDownloads env s0 of
               (navigationSuccess, s1) \<Rightarrow>
                 if \<not> navigationSuccess then Some (None, s1)
                 else
                   (let categorized = (case vw_found env of
                                         None \<Rightarrow> []
                                       | Some ds \<Rightarrow> VW_categorizeDownloads downloadFilter ds);
                        updates = new_updates (metadata s1) categorized
                    in
                    case download_each (VW_downloadFile decode clk) (vw_transfer_of env)
                           updates s1 of
                      None \<Rightarrow> None
                    | Some (successful, failCount, s2) \<Rightarrow>
                        Some (Some (length successful, failCount),
                              updateLastCheck clk s2))))"

text \<open>
  The login of the cycle succeeds, and so does the navigation: the page loads, and
  the session is still valid there or the second login runs to its end.
\<close>

definition VW_login_succeeds :: "vw_cycle \<Rightarrow> provider \<Rightarrow> bool" where
  "VW_login_succeeds env s = (isLoggedIn s \<or> VW_login_attempt (first_login env) = None)"

definition VW_navigation_succeeds :: "vw_cycle \<Rightarrow> bool" where
  "VW_navigation_succeeds env =
     (navigation_error env = None \<and>
      (status_after env \<or> VW_login_attempt (second_login env) = None))"

section \<open>Timestamps\<close>

text \<open>
  The order of timestamps, with \<open>null\<close> (no update yet) below every instant.
\<close>

fun stamp_le :: "nat option \<Rightarrow> nat option \<Rightarrow> bool" where
  "stamp_le None y = True"
| "stamp_le (Some a) None = False"
| "stamp_le (Some a) (Some b) = (a \<le> b)"

text \<open>The \<open>lastUpdate\<close> in the vendor's state file; \<open>null\<close> when there is no readable file.\<close>

definition persisted :: "provider \<Rightarrow> nat option" where
  "persisted s =
     (case metadata_file s of
        Parsed m \<Rightarrow> lastUpdate m
      | Missing \<Rightarrow> None
      | Unparsable \<Rightarrow> None)"

text \<open>
  The timestamps are in order: the one on file is not later than the one in memory,
  and that one is not later than the next reading of the clock.
\<close>

definition stamps_ok :: "(nat \<Rightarrow> nat) \<Rightarrow> provider \<Rightarrow> bool" where
  "stamps_ok clk s =
     (stamp_le (persisted s) (lastUpdate (metadata s)) \<and>
      stamp_le (lastUpdate (metadata s)) (Some (clk (reads s))))"

text \<open>
  \<open>s'\<close> comes after \<open>s\<close>: no clock reading is undone, the timestamp on file has not
  gone back, and the timestamps of \<open>s'\<close> are in order.
\<close>

definition follows :: "(nat \<Rightarrow> nat) \<Rightarrow> provider \<Rightarrow> provider \<Rightarrow> bool" where
  "follows clk s s' =
     (reads s \<le> reads s' \<and> stamp_le (persisted s) (persisted s') \<and> stamps_ok clk s')"

text \<open>Environments for a cycle in which the portal offers nothing.\<close>

definition bmw_welcome_page :: bmw_login_page where
  "bmw_welcome_page =
     bmw_denied_page\<lparr>url_after := ''https://aos.bmwgroup.com/startpage-workshop''\<rparr>"

definition empty_surface :: "string \<Rightarrow> surface" where
  "empty_surface app = \<lparr>navigation_ok = True, found = Some []\<rparr>"

definition no_transfer :: "artifact \<Rightarrow> transfer" where
  "no_transfer d = RequestFailed"

definition quiet_bmw_cycle :: bmw_cycle where
  "quiet_bmw_cycle =
     \<lparr>login_page = bmw_welcome_page, surface_of = empty_surface, transfer_of = no_transfer\<rparr>"

definition vw_welcome_page :: vw_login_page where
  "vw_welcome_page =
     vw_denied_page\<lparr>vw_url_after := ''https://erwin.volkswagen.de/erwin/showHome.do''\<rparr>"

definition quiet_vw_cycle :: vw_cycle where
  "quiet_vw_cycle =
     \<lparr>status_before = False, first_login = vw_welcome_page, navigation_error = None,
      status_after = True, second_login = vw_welcome_page, vw_found = Some [],
      vw_transfer_of = no_transfer\<rparr>"

text \<open>
  Two vendor loops, \<open>bmw\<close> and \<open>vw\<close>, update the aggregate, starting from no file at
  all. The text of an aggregate is the longer the more vendors it holds and the longer
  their names are; \<open>example_length\<close> is such a length for aggregates over these two
  vendors.
\<close>

definition example_length :: "aggregate_state \<Rightarrow> nat" where
  "example_length g =
     70 + (if providers g ''bmw'' = None then 0 else 93)
        + (if providers g ''vw'' = None then 0 else 92)"

definition two_vendor_run ::
  "bool list \<Rightarrow> (disk_file \<times> nat) \<times> writer \<times> writer"
where
  "two_vendor_run sched =
     run_schedule example_length tick_clock sched
       ((Absent, 0), new_writer ''bmw'' empty_vendor_state, new_writer ''vw'' empty_vendor_state)"

text \<open>
  The recorded versions of a provider are in order when those in memory are and those
  in its state file are.
\<close>

definition state_versions_ok :: "provider \<Rightarrow> bool" where
  "state_versions_ok s =
     (recorded_versions_ok (metadata s) \<and>
      (case metadata_file s of
         Parsed m \<Rightarrow> recorded_versions_ok m
       | Missing \<Rightarrow> True
       | Unparsable \<Rightarrow> True))"

text \<open>
  A wall clock that is set back by half a second after its third reading, and two
  check cycles in a row under it, the first from a provider that starts without a state
  file.
\<close>

definition set_back_clock :: "nat \<Rightarrow> nat" where
  "set_back_clock k = (if k < 3 then 2000 + k else 1500 + k)"

definition after_first_cycle :: "provider option" where
  "after_first_cycle =
     BMW_checkForUpdates ista_config quiet_bmw_cycle plain_decode set_back_clock
       (loadMetadata (fresh_provider ''bmw''))"

definition after_second_cycle :: "provider option" where
  "after_second_cycle =
     BMW_checkForUpdates ista_config quiet_bmw_cycle plain_decode set_back_clock
       (the after_first_cycle)"

section \<open>Theorems\<close>

text \<open>
  C1. In a state whose records all carry a non-empty version, as every state the
  program produces does (see \<open>recorded_versions_ok_start\<close>, \<open>downloadFile_versions_ok\<close>,
  \<open>BMW_checkForUpdates_versions_ok\<close> and \<open>VW_checkForUpdates_versions_ok\<close> below),
  \<open>isNewVersion\<close> decides as follows, for every category and every version string.
  If the category has no record it accepts. Otherwise, if the new version is the
  sentinel \<open>unknown\<close> it rejects. Otherwise it accepts exactly when the new string
  differs from the recorded one, by plain inequality of strings.
\<close>

theorem isNewVersion_policy:
  assumes "recorded_versions_ok m"
  shows "(record_of m c = None \<longrightarrow> isNewVersion m c v) \<and>
         (\<forall>r. record_of m c = Some r \<longrightarrow>
            isNewVersion m c v = (if v = ''unknown'' then False else v \<noteq> version r))"
  using assms by (auto simp: isNewVersion_def lastVersion_of_def recorded_versions_ok_def)

text \<open>
  The four examples of the version policy: no record; \<open>1.0.0\<close> recorded and \<open>unknown\<close>,
  \<open>1.0.0\<close> or \<open>0.9.0\<close> found.
\<close>

theorem isNewVersion_policy_witness:
  "isNewVersion empty_vendor_state ''installer'' ''1.0.0'' \<and>
   \<not> isNewVersion (metadata tool_state) ''installer'' ''unknown'' \<and>
   \<not> isNewVersion (metadata tool_state) ''installer'' ''1.0.0'' \<and>
   isNewVersion (metadata tool_state) ''installer'' ''0.9.0''"
proof -
  have e: "recorded_versions_ok empty_vendor_state"
    by (simp add: recorded_versions_ok_def record_of_def empty_vendor_state_def)
  have s: "recorded_versions_ok (metadata tool_state)"
    by (auto simp: recorded_versions_ok_def record_of_def tool_state_def tool_record_def
        split: if_splits)
  have r0: "record_of empty_vendor_state ''installer'' = None"
    by (simp add: record_of_def empty_vendor_state_def)
  have r: "record_of (metadata tool_state) ''installer'' = Some tool_record"
    by (simp add: record_of_def tool_state_def)
  have v: "version tool_record = ''1.0.0''"
    by (simp add: tool_record_def)
  from r0 r v
    isNewVersion_policy [OF e, of "''installer''" "''1.0.0''"]
    isNewVersion_policy [OF s, of "''installer''" "''unknown''"]
    isNewVersion_policy [OF s, of "''installer''" "''1.0.0''"]
    isNewVersion_policy [OF s, of "''installer''" "''0.9.0''"]
  show ?thesis by simp
qed

subsection \<open>Strings\<close>

lemma startsWith_set: "startsWith s p \<Longrightarrow> set p \<subseteq> set s"
  by (induction s p rule: startsWith.induct) auto

lemma str_includes_set: "str_includes s p \<Longrightarrow> set p \<subseteq> set s"
proof (induction s)
  case Nil
  then show ?case by simp
next
  case (Cons a s)
  from Cons.prems have "startsWith (a # s) p \<or> str_includes s p" by simp
  then show ?case
  proof
    assume "startsWith (a # s) p"
    then show ?thesis by (rule startsWith_set)
  next
    assume "str_includes s p"
    then have "set p \<subseteq> set s" by (rule Cons.IH)
    then show ?thesis by auto
  qed
qed

lemma lower_char_not_capital: "lower_char c \<notin> set ''ABCDEFGHIJKLMNOPQRSTUVWXYZ''"
  by (simp add: lower_char_def latin_capitals_def latin_smalls_def)

lemma no_capital_I: "CHR ''I'' \<notin> set (toLowerCase s)"
  using lower_char_not_capital by (fastforce simp: toLowerCase_def)

lemma lowercased_never_includes_pd_marker:
  "\<not> str_includes (toLowerCase u) ''ISTAOSS_ProgrammingData_''"
  using str_includes_set no_capital_I by fastforce

subsection \<open>Categorization\<close>

lemma BMW_categorize_one_lookup:
  "map_of (BMW_categorize_one cfg app acc d) c =
     (case map_of acc c of
        Some a \<Rightarrow> Some a
      | None \<Rightarrow> if BMW_accepts cfg app c d then Some (BMW_artifact app c d) else None)"
  by (auto simp: BMW_categorize_one_def BMW_accepts_def Let_def map_add_def
      split: option.splits)

lemma BMW_categorize_fold_lookup:
  "map_of (foldl (BMW_categorize_one cfg app) acc ds) c =
     (case map_of acc c of
        Some a \<Rightarrow> Some a
      | None \<Rightarrow> map_option (BMW_artifact app c) (find (BMW_accepts cfg app c) ds))"
proof (induction ds arbitrary: acc)
  case Nil
  then show ?case by (simp split: option.splits)
next
  case (Cons d ds)
  show ?case
    by (simp add: Cons.IH BMW_categorize_one_lookup split: option.splits)
qed

lemma BMW_categorize_one_distinct:
  "distinct (map fst acc) \<Longrightarrow> distinct (map fst (BMW_categorize_one cfg app acc d))"
  by (auto simp: BMW_categorize_one_def Let_def map_of_eq_None_iff split: option.splits)

lemma BMW_categorize_fold_distinct:
  "distinct (map fst acc) \<Longrightarrow> distinct (map fst (foldl (BMW_categorize_one cfg app) acc ds))"
  by (induction ds arbitrary: acc) (simp_all add: BMW_categorize_one_distinct)

lemma VW_categorize_one_lookup:
  "map_of (VW_categorize_one filt acc d) c =
     (case map_of acc c of
        Some a \<Rightarrow> Some a
      | None \<Rightarrow> if VW_accepts filt c d then Some (VW_artifact (VW_app_of d) c d) else None)"
  by (auto simp: VW_categorize_one_def VW_accepts_def VW_app_of_def map_add_def
      split: option.splits)

lemma VW_categorize_fold_lookup:
  "map_of (foldl (VW_categorize_one filt) acc ds) c =
     (case map_of acc c of
        Some a \<Rightarrow> Some a
      | None \<Rightarrow>
          map_option (\<lambda>d. VW_artifact (VW_app_of d) c d) (find (VW_accepts filt c) ds))"
proof (induction ds arbitrary: acc)
  case Nil
  then show ?case by (simp split: option.splits)
next
  case (Cons d ds)
  show ?case
    by (simp add: Cons.IH VW_categorize_one_lookup split: option.splits)
qed

lemma VW_categorize_one_distinct:
  "distinct (map fst acc) \<Longrightarrow> distinct (map fst (VW_categorize_one filt acc d))"
  by (auto simp: VW_categorize_one_def map_of_eq_None_iff split: option.splits)

lemma VW_categorize_fold_distinct:
  "distinct (map fst acc) \<Longrightarrow> distinct (map fst (foldl (VW_categorize_one filt) acc ds))"
  by (induction ds arbitrary: acc) (simp_all add: VW_categorize_one_distinct)

lemma BMW_example_categorization:
  "BMW_categorizeDownloads example_config [pd_candidate, client_candidate] ''ista-next'' =
     [(''programming_data'', BMW_artifact ''ista-next'' ''programming_data'' pd_candidate),
      (''client'', BMW_artifact ''ista-next'' ''client'' client_candidate)]"
  by code_simp

text \<open>
  C5. In the result of \<open>categorizeDownloads\<close>, of BMW and of VW, every category occurs
  at most once and holds the first candidate of the list that passes the allow-list
  and whose first matching rule names that category; later candidates for it are
  ignored. In the ISTA-Next chain the programming-data rule comes first: a title
  containing \<open>programmierdaten\<close> gives \<open>programming_data\<close> whatever the later rules
  would say. For the two candidates of the example the result is exactly
  \<open>programming_data\<close> for the first and \<open>client\<close> for the second.
\<close>

theorem BMW_categorize_first_match_wins:
  "distinct (map fst (BMW_categorizeDownloads cfg ds app)) \<and>
   map_of (BMW_categorizeDownloads cfg ds app) c =
     map_option (BMW_artifact app c) (find (BMW_accepts cfg app c) ds) \<and>
   distinct (map fst (VW_categorizeDownloads filt ds)) \<and>
   map_of (VW_categorizeDownloads filt ds) c =
     map_option (\<lambda>d. VW_artifact (VW_app_of d) c d) (find (VW_accepts filt c) ds) \<and>
   (str_includes t ''programmierdaten'' \<longrightarrow>
      BMW_rule ''ista-next'' t u = Some ''programming_data'') \<and>
   BMW_categorizeDownloads example_config [pd_candidate, client_candidate] ''ista-next'' =
     [(''programming_data'', BMW_artifact ''ista-next'' ''programming_data'' pd_candidate),
      (''client'', BMW_artifact ''ista-next'' ''client'' client_candidate)]"
proof -
  have "distinct (map fst (BMW_categorizeDownloads cfg ds app))"
    unfolding BMW_categorizeDownloads_def by (rule BMW_categorize_fold_distinct) simp
  moreover have "map_of (BMW_categorizeDownloads cfg ds app) c =
      map_option (BMW_artifact app c) (find (BMW_accepts cfg app c) ds)"
    unfolding BMW_categorizeDownloads_def by (simp add: BMW_categorize_fold_lookup)
  moreover have "distinct (map fst (VW_categorizeDownloads filt ds))"
    unfolding VW_categorizeDownloads_def by (rule VW_categorize_fold_distinct) simp
  moreover have "map_of (VW_categorizeDownloads filt ds) c =
      map_option (\<lambda>d. VW_artifact (VW_app_of d) c d) (find (VW_accepts filt c) ds)"
    unfolding VW_categorizeDownloads_def by (simp add: VW_categorize_fold_lookup)
  moreover have "str_includes t ''programmierdaten'' \<longrightarrow>
      BMW_rule ''ista-next'' t u = Some ''programming_data''"
    by (simp add: BMW_rule_def)
  ultimately show ?thesis using BMW_example_categorization by blast
qed

theorem BMW_categorize_first_match_wins_witness:
  "str_includes (toLowerCase (title pd_candidate)) ''programmierdaten'' \<and>
   BMW_rule ''ista-next'' (toLowerCase (title pd_candidate)) (toLowerCase (url pd_candidate)) =
     Some ''programming_data''"
proof -
  have h: "str_includes (toLowerCase (title pd_candidate)) ''programmierdaten''"
    by code_simp
  with BMW_categorize_first_match_wins
    [of example_config "[pd_candidate]" "''ista-next''" "''client''" "[]"
      "toLowerCase (title pd_candidate)" "toLowerCase (url pd_candidate)"]
  show ?thesis by blast
qed

text \<open>
  C10. In the ISTA-Next chain the test \<open>url.includes('ISTAOSS_ProgrammingData_')\<close>
  runs on the lowercased URL and holds for no URL. So a candidate that passes the
  allow-list, whose lowercased title does not contain \<open>programmierdaten\<close> and whose
  lowercased URL contains \<open>istaoss\<close> or \<open>client\<close>, gets the category \<open>client\<close>: the
  loop body stores it under \<open>client\<close> if that slot is free and drops it otherwise.
\<close>

theorem BMW_url_programming_data_rule_never_fires:
  "\<not> str_includes (toLowerCase w) ''ISTAOSS_ProgrammingData_'' \<and>
   (matchesFilter (istaNextFilter cfg) (title d) \<and>
    \<not> str_includes (toLowerCase (title d)) ''programmierdaten'' \<and>
    (str_includes (toLowerCase (url d)) ''istaoss'' \<or>
     str_includes (toLowerCase (url d)) ''client'') \<longrightarrow>
    BMW_rule ''ista-next'' (toLowerCase (title d)) (toLowerCase (url d)) = Some ''client'' \<and>
    BMW_categorize_one cfg ''ista-next'' acc d =
      (if map_of acc ''client'' = None
       then acc @ [(''client'', BMW_artifact ''ista-next'' ''client'' d)]
       else acc))"
proof -
  have dead: "\<And>x. \<not> str_includes (toLowerCase x) ''ISTAOSS_ProgrammingData_''"
    by (rule lowercased_never_includes_pd_marker)
  show ?thesis
    by (auto simp: dead BMW_rule_def BMW_categorize_one_def Let_def BMW_downloadCategories_def)
qed

theorem BMW_url_programming_data_rule_never_fires_witness:
  "BMW_rule ''ista-next'' (toLowerCase (title pd_by_url_candidate))
      (toLowerCase (url pd_by_url_candidate)) = Some ''client'' \<and>
   BMW_categorize_one ista_config ''ista-next'' [] pd_by_url_candidate =
     [(''client'', BMW_artifact ''ista-next'' ''client'' pd_by_url_candidate)]"
proof -
  have h1: "matchesFilter (istaNextFilter ista_config) (title pd_by_url_candidate)"
    by code_simp
  have h2: "\<not> str_includes (toLowerCase (title pd_by_url_candidate)) ''programmierdaten''"
    by code_simp
  have h3: "str_includes (toLowerCase (url pd_by_url_candidate)) ''istaoss''"
    by code_simp
  from h1 h2 h3 BMW_url_programming_data_rule_never_fires
    [of "[]" ista_config pd_by_url_candidate "[]"]
  show ?thesis by simp
qed

subsection \<open>Version extraction\<close>

lemma first_match_None:
  "first_match pats s = None \<longleftrightarrow> (\<forall>p\<in>set pats. js_match p s = None)"
  by (induction pats) (auto split: option.splits)

lemma first_match_Some:
  "first_match pats s = Some v \<longleftrightarrow>
     (\<exists>i<length pats. js_match (pats ! i) s = Some v \<and> (\<forall>j<i. js_match (pats ! j) s = None))"
proof (induction pats)
  case Nil
  then show ?case by simp
next
  case (Cons p pats)
  show ?case
  proof (cases "js_match p s")
    case None
    have "(\<exists>i<length (p # pats). js_match ((p # pats) ! i) s = Some v \<and>
            (\<forall>j<i. js_match ((p # pats) ! j) s = None)) \<longleftrightarrow>
          (\<exists>i<length pats. js_match (pats ! i) s = Some v \<and>
            (\<forall>j<i. js_match (pats ! j) s = None))" (is "?L \<longleftrightarrow> ?R")
    proof
      assume ?L
      then obtain i where i: "i < length (p # pats)" "js_match ((p # pats) ! i) s = Some v"
        "\<forall>j<i. js_match ((p # pats) ! j) s = None" by blast
      with None obtain k where k: "i = Suc k" by (cases i) auto
      have "\<forall>j<k. js_match (pats ! j) s = None"
      proof (intro allI impI)
        fix j assume "j < k"
        then have "Suc j < i" using k by simp
        with i(3) have "js_match ((p # pats) ! Suc j) s = None" by blast
        then show "js_match (pats ! j) s = None" by simp
      qed
      with i k show ?R by auto
    next
      assume ?R
      then obtain i where i: "i < length pats" "js_match (pats ! i) s = Some v"
        "\<forall>j<i. js_match (pats ! j) s = None" by blast
      have "\<forall>j<Suc i. js_match ((p # pats) ! j) s = None"
      proof (intro allI impI)
        fix j assume "j < Suc i"
        then show "js_match ((p # pats) ! j) s = None"
          using None i(3) by (cases j) auto
      qed
      with i show ?L by (intro exI[of _ "Suc i"]) auto
    qed
    with None Cons.IH show ?thesis by simp
  next
    case (Some w)
    have "(\<exists>i<length (p # pats). js_match ((p # pats) ! i) s = Some v \<and>
            (\<forall>j<i. js_match ((p # pats) ! j) s = None)) \<longleftrightarrow> w = v" (is "?L \<longleftrightarrow> _")
    proof
      assume ?L
      then obtain i where i: "i < length (p # pats)" "js_match ((p # pats) ! i) s = Some v"
        "\<forall>j<i. js_match ((p # pats) ! j) s = None" by blast
      have "i = 0"
      proof (rule ccontr)
        assume "i \<noteq> 0"
        then have "0 < i" by simp
        with i(3) have "js_match ((p # pats) ! 0) s = None" by blast
        with Some show False by simp
      qed
      with i(2) Some show "w = v" by simp
    next
      assume "w = v"
      with Some show ?L by (intro exI[of _ 0]) simp
    qed
    with Some show ?thesis by simp
  qed
qed

text \<open>A version that a pattern extracts is never the empty string.\<close>

lemma try_down_Some:
  "try_down f lo k = Some m \<Longrightarrow> \<exists>j n. lo \<le> j \<and> j \<le> k \<and> f j = Some n \<and> m = j + n"
proof (induction k)
  case 0
  then show ?case by (auto split: if_splits)
next
  case (Suc k)
  show ?case
  proof (cases "f (Suc k)")
    case None
    with Suc.prems have "try_down f lo k = Some m" by (simp split: if_splits)
    from Suc.IH [OF this] obtain j n where "lo \<le> j" "j \<le> k" "f j = Some n" "m = j + n"
      by blast
    then show ?thesis by (intro exI [of _ j] exI [of _ n]) simp
  next
    case (Some n)
    with Suc.prems have "\<not> Suc k < lo" "m = Suc k + n" by (auto split: if_splits)
    with Some show ?thesis by (intro exI [of _ "Suc k"] exI [of _ n]) simp
  qed
qed

lemma match_here_le: "match_here ps s = Some n \<Longrightarrow> n \<le> length s"
proof (induction ps arbitrary: s n)
  case Nil
  then show ?case by simp
next
  case (Cons p ps)
  have quant: "n \<le> length s"
    if "try_down (\<lambda>k. match_here ps (drop k s)) lo (length (takeWhile (in_cls cl) s)) = Some n"
    for lo cl
  proof -
    from try_down_Some [OF that] obtain j n' where
      j: "j \<le> length (takeWhile (in_cls cl) s)" "match_here ps (drop j s) = Some n'" "n = j + n'"
      by blast
    have "length (takeWhile (in_cls cl) s) \<le> length s" by (rule length_takeWhile_le)
    moreover from Cons.IH [OF j(2)] have "n' \<le> length s - j" by simp
    ultimately show ?thesis using j(1,3) by simp
  qed
  show ?case
  proof (cases p)
    case (Lit c)
    with Cons.prems obtain x xs n' where "s = x # xs" "match_here ps xs = Some n'" "n = Suc n'"
      by (auto split: list.splits if_splits)
    with Cons.IH [of xs n'] show ?thesis by simp
  next
    case (Many1 cl)
    with Cons.prems show ?thesis by (intro quant [of 1 cl]) simp
  next
    case (Many0 cl)
    with Cons.prems show ?thesis by (intro quant [of 0 cl]) simp
  next
    case (Exactly k cl)
    with Cons.prems obtain n' where "k \<le> length s" "match_here ps (drop k s) = Some n'"
      "n = k + n'"
      by (auto split: if_splits)
    with Cons.IH [of "drop k s" n'] show ?thesis by simp
  next
    case AtEnd
    with Cons.prems have "s = []" "match_here ps [] = Some n" by (auto split: if_splits)
    with Cons.IH [of "[]" n] show ?thesis by simp
  qed
qed

lemma regex_exec_Some:
  "regex_exec ps s = Some (i, n) \<Longrightarrow> match_here ps (drop i s) = Some n"
  by (induction s arbitrary: i) (auto split: option.splits)

lemma js_match_length:
  assumes "js_match ps s = Some v"
  shows "\<exists>t. match_here ps t = Some (length v)"
proof -
  from assms obtain i n where e: "regex_exec ps s = Some (i, n)" and v: "v = take n (drop i s)"
    by (auto simp: js_match_def)
  from regex_exec_Some [OF e] have m: "match_here ps (drop i s) = Some n" .
  from match_here_le [OF m] v have "length v = n" by simp
  with m show ?thesis by blast
qed

lemma Many1_takes_a_character: "match_here (Many1 cl # ps) t = Some n \<Longrightarrow> 0 < n"
  by (auto dest!: try_down_Some)

lemma Exactly_takes_its_characters: "match_here (Exactly k cl # ps) t = Some n \<Longrightarrow> k \<le> n"
  by (auto split: if_splits)

lemma version_patterns_take_a_character:
  assumes "p \<in> set filenamePatterns \<or> p \<in> set urlPatterns"
    and "match_here p t = Some n"
  shows "0 < n"
proof -
  from assms(1) consider (many) cl ps where "p = Many1 cl # ps"
    | (exact) cl ps where "p = Exactly 4 cl # ps"
    by (auto simp: filenamePatterns_def urlPatterns_def pat_underscore_region_def
        pat_underscore_date_def pat_four_dot_def pat_three_dot_def pat_dash_def
        pat_iso_date_def)
  then show ?thesis
  proof cases
    case many
    with assms(2) show ?thesis using Many1_takes_a_character by blast
  next
    case exact
    with assms(2) have "4 \<le> n" using Exactly_takes_its_characters by blast
    then show ?thesis by simp
  qed
qed

lemma first_match_nonempty:
  assumes "first_match pats s = Some v"
    and "set pats \<subseteq> set filenamePatterns \<union> set urlPatterns"
  shows "v \<noteq> []"
proof -
  from assms(1) obtain i where "i < length pats" "js_match (pats ! i) s = Some v"
    by (auto simp: first_match_Some)
  then obtain p where p: "p \<in> set pats" "js_match p s = Some v"
    using nth_mem by blast
  from js_match_length [OF p(2)] obtain t where "match_here p t = Some (length v)" ..
  moreover from p(1) assms(2) have "p \<in> set filenamePatterns \<or> p \<in> set urlPatterns" by blast
  ultimately have "0 < length v" by (rule version_patterns_take_a_character [rotated])
  then show ?thesis by simp
qed

lemma extractVersion_nonempty: "extractVersion u \<noteq> []"
  using first_match_nonempty [of urlPatterns u]
  by (auto simp: extractVersion_def split: option.splits)

lemma VW_extractVersion_nonempty: "VW_extractVersion u f \<noteq> []"
  using first_match_nonempty [of urlPatterns u] first_match_nonempty [of filenamePatterns f]
  by (auto simp: VW_extractVersion_def split: option.splits if_splits)

lemma filenamePatterns_need_text: "first_match filenamePatterns [] = None"
  by code_simp

lemma VW_extractVersion_cases:
  "VW_extractVersion u f =
     (case first_match filenamePatterns f of
        Some v \<Rightarrow> v
      | None \<Rightarrow> (case first_match urlPatterns u of Some v \<Rightarrow> v | None \<Rightarrow> ''unknown''))"
  by (simp add: VW_extractVersion_def filenamePatterns_need_text)

lemma VW_extractVersion_coverage:
  "VW_extractVersion ''https://erwin.volkswagen.de/dl?id=1'' ''Setup_3.74.0.930.exe'' =
     ''3.74.0.930''"
  "VW_extractVersion ''https://erwin.volkswagen.de/dl?id=1'' ''Setup_4.53.30.exe'' =
     ''4.53.30''"
  "VW_extractVersion ''https://erwin.volkswagen.de/dl?id=1'' ''Setup_04-25-10.exe'' =
     ''04-25-10''"
  "VW_extractVersion ''https://erwin.volkswagen.de/dl?id=1'' ''ODIS_update_25_1_0_20250820.zip'' =
     ''25_1_0_20250820''"
  "VW_extractVersion ''https://erwin.volkswagen.de/dl?id=1'' ''ODIS_update_25_1_0-EU_20250820.zip'' =
     ''25_1_0-EU_20250820''"
  "VW_extractVersion ''https://erwin.volkswagen.de/dl?id=1'' ''notes_2025-02-03.zip'' =
     ''2025-02-03''"
  "VW_extractVersion ''https://erwin.volkswagen.de/dl/4.53.30/get'' ''FMC-Installer'' =
     ''4.53.30''"
  by code_simp+

text \<open>
  C3 (as amended). The pattern loop returns the match of the first pattern of its list
  that matches. VW's extraction runs the loop over six patterns on the resolved file
  name (underscore-grouped with date and optional region suffix, underscore-grouped
  with date, four-dot, three-dot, dash-numeric, ISO date) and, when none of them
  matches, over three patterns on the URL (four-dot, three-dot, dash-numeric). The
  base extraction, which BMW uses, runs the loop over those three patterns on the URL
  alone. When no pattern of the lists tried matches, the result is \<open>unknown\<close>.
\<close>

theorem extractVersion_first_pattern_wins:
  "(first_match pats s = Some v \<longleftrightarrow>
      (\<exists>i<length pats. js_match (pats ! i) s = Some v \<and>
         (\<forall>j<i. js_match (pats ! j) s = None))) \<and>
   VW_extractVersion u f =
     (case first_match filenamePatterns f of
        Some v \<Rightarrow> v
      | None \<Rightarrow> (case first_match urlPatterns u of Some v \<Rightarrow> v | None \<Rightarrow> ''unknown'')) \<and>
   extractVersion u =
     (case first_match urlPatterns u of Some v \<Rightarrow> v | None \<Rightarrow> ''unknown'') \<and>
   ((\<forall>p\<in>set filenamePatterns. js_match p f = None) \<and>
    (\<forall>p\<in>set urlPatterns. js_match p u = None) \<longrightarrow>
      VW_extractVersion u f = ''unknown'') \<and>
   ((\<forall>p\<in>set urlPatterns. js_match p u = None) \<longrightarrow> extractVersion u = ''unknown'') \<and>
   filenamePatterns =
     [pat_underscore_region, pat_underscore_date, pat_four_dot, pat_three_dot,
      pat_dash, pat_iso_date] \<and>
   urlPatterns = [pat_four_dot, pat_three_dot, pat_dash] \<and>
   VW_extractVersion ''https://erwin.volkswagen.de/dl?id=1'' ''Setup_3.74.0.930.exe'' =
     ''3.74.0.930'' \<and>
   VW_extractVersion ''https://erwin.volkswagen.de/dl?id=1'' ''Setup_4.53.30.exe'' =
     ''4.53.30'' \<and>
   VW_extractVersion ''https://erwin.volkswagen.de/dl?id=1'' ''Setup_04-25-10.exe'' =
     ''04-25-10'' \<and>
   VW_extractVersion ''https://erwin.volkswagen.de/dl?id=1'' ''ODIS_update_25_1_0_20250820.zip'' =
     ''25_1_0_20250820'' \<and>
   VW_extractVersion ''https://erwin.volkswagen.de/dl?id=1'' ''ODIS_update_25_1_0-EU_20250820.zip'' =
     ''25_1_0-EU_20250820'' \<and>
   VW_extractVersion ''https://erwin.volkswagen.de/dl?id=1'' ''notes_2025-02-03.zip'' =
     ''2025-02-03'' \<and>
   VW_extractVersion ''https://erwin.volkswagen.de/dl/4.53.30/get'' ''FMC-Installer'' =
     ''4.53.30''"
proof -
  have a: "first_match pats s = Some v \<longleftrightarrow>
      (\<exists>i<length pats. js_match (pats ! i) s = Some v \<and>
         (\<forall>j<i. js_match (pats ! j) s = None))"
    by (rule first_match_Some)
  have b: "(\<forall>p\<in>set filenamePatterns. js_match p f = None) \<and>
    (\<forall>p\<in>set urlPatterns. js_match p u = None) \<longrightarrow> VW_extractVersion u f = ''unknown''"
    by (simp add: VW_extractVersion_cases first_match_None [symmetric])
  have c: "(\<forall>p\<in>set urlPatterns. js_match p u = None) \<longrightarrow> extractVersion u = ''unknown''"
    by (simp add: extractVersion_def first_match_None [symmetric])
  show ?thesis
    using a b c VW_extractVersion_cases [of u f] VW_extractVersion_coverage
    by (simp only: extractVersion_def filenamePatterns_def urlPatterns_def simp_thms)
qed

theorem extractVersion_first_pattern_wins_witness:
  "extractVersion ''https://host/notes.txt'' = ''unknown'' \<and>
   VW_extractVersion ''https://host/notes.txt'' ''FMC-Installer'' = ''unknown''"
proof -
  have h1: "\<forall>p\<in>set urlPatterns. js_match p ''https://host/notes.txt'' = None"
    by code_simp
  have h2: "\<forall>p\<in>set filenamePatterns. js_match p ''FMC-Installer'' = None"
    by code_simp
  from h1 h2 extractVersion_first_pattern_wins
    [of "[]" "[]" "[]" "''https://host/notes.txt''" "''FMC-Installer''"]
  show ?thesis by blast
qed

text \<open>
  C3 as stated fails for BMW: the URL carries an underscore-grouped version with a
  date, which the pattern for that form finds, and the base extraction still answers
  \<open>unknown\<close>, since neither that pattern nor a file name is part of it.
\<close>

theorem extractVersion_counterexample:
  "js_match pat_underscore_date underscore_date_url = Some ''25_1_0_20250820'' \<and>
   extractVersion underscore_date_url = ''unknown''"
  by code_simp

subsection \<open>Files and records\<close>

lemma file_exists_map_of: "file_exists f d \<longleftrightarrow> map_of d f \<noteq> None"
  by (simp add: file_exists_def map_of_eq_None_iff)

lemma not_exists_lookup: "\<not> file_exists f d \<Longrightarrow> map_of d f = None"
  by (simp add: file_exists_def map_of_eq_None_iff)

lemma map_of_unlink:
  "map_of (case unlink f d of None \<Rightarrow> d | Some d' \<Rightarrow> d') g =
     (if g = f then None else map_of d g)"
proof (cases "file_exists f d")
  case True
  then show ?thesis by (simp add: unlink_def delete_conv)
next
  case False
  then have "map_of d f = None" by (rule not_exists_lookup)
  with False show ?thesis by (auto simp: unlink_def)
qed

lemma similar_step_lookup:
  "map_of (similar_step fn d file) f =
     (if file = f \<and> look_alike fn f then None else map_of d f)"
  unfolding similar_step_def look_alike_def
  by (auto simp: map_of_unlink)

lemma similar_fold_lookup:
  "map_of (foldl (similar_step fn) d fs) f =
     (if f \<in> set fs \<and> look_alike fn f then None else map_of d f)"
  by (induction fs arbitrary: d) (auto simp: similar_step_lookup)

lemma cleanupSimilarFiles_lookup:
  "map_of (dir (cleanupSimilarFiles fn s)) f =
     (if look_alike fn f then None else map_of (dir s) f)"
  by (auto simp: cleanupSimilarFiles_def similar_fold_lookup map_of_eq_None_iff [symmetric])

lemma cleanupSimilarFiles_metadata [simp]:
  "metadata (cleanupSimilarFiles fn s) = metadata s"
  by (simp add: cleanupSimilarFiles_def)

lemma cleanupOldVersions_lookup:
  "map_of (dir (cleanupOldVersions clk c fn s)) f =
     (if look_alike fn f \<or> superseded_file c fn s f then None else map_of (dir s) f)"
  unfolding cleanupOldVersions_def
  by (auto simp: cleanupSimilarFiles_lookup superseded_file_def record_of_def
      updateProviderMetadata_def writeMetadataFile_def unlink_def delete_conv
      not_exists_lookup
      split: option.splits)

lemma cleanupOldVersions_record:
  "record_of (metadata (cleanupOldVersions clk c fn s)) c' =
     (if c' = c \<and> drops_record c fn s then None else record_of (metadata s) c')"
  unfolding cleanupOldVersions_def
  by (auto simp: drops_record_def superseded_file_def record_of_def
      updateProviderMetadata_def writeMetadataFile_def unlink_def
      split: option.splits)

lemma updateMetadata_record:
  "record_of (metadata (updateMetadata clk c data s)) c' =
     (if c' = c then Some data else record_of (metadata s) c')"
  by (auto simp: updateMetadata_def updateProviderMetadata_def writeMetadataFile_def
      record_of_def Let_def split: option.splits)

lemma updateMetadata_dir [simp]: "dir (updateMetadata clk c data s) = dir s"
  by (simp add: updateMetadata_def updateProviderMetadata_def writeMetadataFile_def Let_def)

lemma unlink_quiet_lookup:
  "map_of (dir (unlink_quiet f s)) g = (if g = f then None else map_of (dir s) g)"
  using map_of_unlink [where f = f and d = "dir s" and g = g]
  by (auto simp: unlink_quiet_def split: option.splits)

lemma unlink_quiet_metadata [simp]: "metadata (unlink_quiet f s) = metadata s"
  by (simp add: unlink_quiet_def split: option.splits)

lemma write_file_lookup:
  "map_of (dir (write_file f n s)) g = (if g = f then Some n else map_of (dir s) g)"
  by (simp add: write_file_def update_conv')

lemma write_file_metadata [simp]: "metadata (write_file f n s) = metadata s"
  by (simp add: write_file_def)

lemma downloadTo_zero_byte:
  "downloadTo clk fn d (Completed 0) s \<noteq> None"
  "fst (the (downloadTo clk fn d (Completed 0) s)) = False"
  "\<not> file_exists fn (dir (snd (the (downloadTo clk fn d (Completed 0) s))))"
  "record_of (metadata (snd (the (downloadTo clk fn d (Completed 0) s)))) c =
     (if c = category d \<and> drops_record (category d) fn s then None
      else record_of (metadata s) c)"
  by (simp_all add: downloadTo_def Let_def file_exists_map_of unlink_quiet_lookup
      cleanupOldVersions_record)

lemma downloadTo_success:
  assumes "0 < n"
  shows "downloadTo clk fn d (Completed n) s \<noteq> None"
    and "fst (the (downloadTo clk fn d (Completed n) s)) = True"
    and "map_option fileName
           (record_of (metadata (snd (the (downloadTo clk fn d (Completed n) s))))
              (category d)) = Some fn"
    and "map_of (dir (snd (the (downloadTo clk fn d (Completed n) s)))) f =
           (if f = fn then Some n
            else if look_alike fn f \<or> superseded_file (category d) fn s f then None
            else map_of (dir s) f)"
  using assms
  by (simp_all add: downloadTo_def Let_def updateMetadata_record make_record_def
      write_file_lookup cleanupOldVersions_lookup)

text \<open>
  C2 (as amended). A transfer that completes with a zero-byte file makes
  \<open>downloadFile\<close> return, with \<open>false\<close>; the file it wrote is gone from the directory;
  no record is written. The record of the category is as before, except when it named
  a different file that was still on disk: the cleanup that runs before the transfer
  has then deleted that file and dropped the record, and the category ends without
  one. The records of the other categories are as before.
\<close>

theorem zero_byte_download_fails:
  "downloadFile decode clk d (Completed 0) s \<noteq> None \<and>
   fst (the (downloadFile decode clk d (Completed 0) s)) = False \<and>
   \<not> file_exists (resolveFileName decode d)
       (dir (snd (the (downloadFile decode clk d (Completed 0) s)))) \<and>
   record_of (metadata (snd (the (downloadFile decode clk d (Completed 0) s)))) c =
     (if c = category d \<and> drops_record (category d) (resolveFileName decode d) s then None
      else record_of (metadata s) c)"
  unfolding downloadFile_def by (simp add: downloadTo_zero_byte)

text \<open>
  With no file of the recorded name on disk, the record survives the failed attempt.
\<close>

theorem zero_byte_download_fails_witness:
  "fst (the (downloadFile plain_decode tick_clock tool_update (Completed 0)
       (tool_state\<lparr>dir := []\<rparr>))) = False \<and>
   record_of (metadata (snd (the (downloadFile plain_decode tick_clock tool_update (Completed 0)
       (tool_state\<lparr>dir := []\<rparr>))))) ''installer'' = Some tool_record"
proof -
  have a: "\<not> drops_record (category tool_update)
      (resolveFileName plain_decode tool_update) (tool_state\<lparr>dir := []\<rparr>)"
    by code_simp
  have b: "record_of (metadata (tool_state\<lparr>dir := []\<rparr>)) ''installer'' = Some tool_record"
    by code_simp
  from a b zero_byte_download_fails
    [of plain_decode tick_clock tool_update "tool_state\<lparr>dir := []\<rparr>" "''installer''"]
  show ?thesis by simp
qed

text \<open>
  C2 as stated fails: the category has a record naming \<open>Tool_1.0.0.exe\<close>, the attempt
  for \<open>Tool_1.1.0.exe\<close> ends with a zero-byte file, and afterwards the category has no
  record (and the old file is gone as well).
\<close>

theorem zero_byte_download_counterexample:
  "record_of (metadata tool_state) ''installer'' = Some tool_record \<and>
   map_option fst (downloadFile plain_decode tick_clock tool_update (Completed 0) tool_state) =
     Some False \<and>
   record_of (metadata (snd (the (downloadFile plain_decode tick_clock tool_update (Completed 0)
       tool_state)))) ''installer'' = None \<and>
   dir (snd (the (downloadFile plain_decode tick_clock tool_update (Completed 0) tool_state))) = []"
  by code_simp

text \<open>
  C6 (as amended). A \<open>downloadFile\<close> whose transfer completes with a non-empty file
  returns, with \<open>true\<close>; after it the record of the category names the new file, and
  the directory holds the new file and, of the files it held before, exactly those that
  are neither the superseded file of the category nor a look-alike of the new file. The
  look-alike scan skips every name ending in \<open>.json\<close>, so such a file stays even when
  it has the base name and the extension of the new file.
\<close>

theorem successful_download_replaces_old_file:
  "0 < n \<Longrightarrow>
   downloadFile decode clk d (Completed n) s \<noteq> None \<and>
   fst (the (downloadFile decode clk d (Completed n) s)) = True \<and>
   map_option fileName
     (record_of (metadata (snd (the (downloadFile decode clk d (Completed n) s))))
        (category d)) =
     Some (resolveFileName decode d) \<and>
   (file_exists f (dir (snd (the (downloadFile decode clk d (Completed n) s)))) \<longleftrightarrow>
      f = resolveFileName decode d \<or>
      (file_exists f (dir s) \<and>
       \<not> superseded_file (category d) (resolveFileName decode d) s f \<and>
       \<not> look_alike (resolveFileName decode d) f))"
  unfolding downloadFile_def
  by (simp add: downloadTo_success file_exists_map_of)

theorem successful_download_replaces_old_file_witness:
  "fst (the (downloadFile plain_decode tick_clock tool_update (Completed 7) tool_state)) = True \<and>
   map_option fileName
     (record_of (metadata (snd (the (downloadFile plain_decode tick_clock tool_update
        (Completed 7) tool_state)))) ''installer'') = Some ''Tool_1.1.0.exe'' \<and>
   file_exists ''Tool_1.1.0.exe''
     (dir (snd (the (downloadFile plain_decode tick_clock tool_update (Completed 7)
        tool_state)))) \<and>
   \<not> file_exists ''Tool_1.0.0.exe''
     (dir (snd (the (downloadFile plain_decode tick_clock tool_update (Completed 7)
        tool_state))))"
proof -
  have n: "(0::nat) < 7" by simp
  have fn: "resolveFileName plain_decode tool_update = ''Tool_1.1.0.exe''" by code_simp
  have c: "category tool_update = ''installer''" by code_simp
  have old: "superseded_file ''installer'' ''Tool_1.1.0.exe'' tool_state ''Tool_1.0.0.exe''"
    by code_simp
  from successful_download_replaces_old_file
    [OF n, of plain_decode tick_clock tool_update tool_state "''Tool_1.1.0.exe''"]
    successful_download_replaces_old_file
    [OF n, of plain_decode tick_clock tool_update tool_state "''Tool_1.0.0.exe''"]
    fn c old
  show ?thesis by simp
qed

text \<open>
  C6 as stated fails: the new artifact is \<open>Tool_1.1.0.json\<close>, the download succeeds,
  and \<open>Tool_1.0.0.json\<close>, which has the same extension and the same version-stripped
  base name, is still in the directory next to the new file.
\<close>

theorem successful_download_counterexample:
  "map_option fst (downloadFile plain_decode tick_clock json_update (Completed 7) json_state) =
     Some True \<and>
   getBaseFileName ''Tool_1.0.0.json'' = getBaseFileName ''Tool_1.1.0.json'' \<and>
   extname ''Tool_1.0.0.json'' = extname ''Tool_1.1.0.json'' \<and>
   dir (snd (the (downloadFile plain_decode tick_clock json_update (Completed 7) json_state))) =
     [(''Tool_1.0.0.json'', 100), (''Tool_1.1.0.json'', 7)]"
  by code_simp

text \<open>\<open>VWProvider.downloadFile\<close> differs in the file name only.\<close>

lemma VW_zero_byte_download_fails:
  "VW_downloadFile decode clk d (Completed 0) s \<noteq> None \<and>
   fst (the (VW_downloadFile decode clk d (Completed 0) s)) = False \<and>
   \<not> file_exists (VW_resolveFileName decode d)
       (dir (snd (the (VW_downloadFile decode clk d (Completed 0) s)))) \<and>
   record_of (metadata (snd (the (VW_downloadFile decode clk d (Completed 0) s)))) c =
     (if c = category d \<and> drops_record (category d) (VW_resolveFileName decode d) s then None
      else record_of (metadata s) c)"
  unfolding VW_downloadFile_def by (simp add: downloadTo_zero_byte)

lemma VW_successful_download_replaces_old_file:
  "0 < n \<Longrightarrow>
   VW_downloadFile decode clk d (Completed n) s \<noteq> None \<and>
   fst (the (VW_downloadFile decode clk d (Completed n) s)) = True \<and>
   map_option fileName
     (record_of (metadata (snd (the (VW_downloadFile decode clk d (Completed n) s))))
        (category d)) =
     Some (VW_resolveFileName decode d) \<and>
   (file_exists f (dir (snd (the (VW_downloadFile decode clk d (Completed n) s)))) \<longleftrightarrow>
      f = VW_resolveFileName decode d \<or>
      (file_exists f (dir s) \<and>
       \<not> superseded_file (category d) (VW_resolveFileName decode d) s f \<and>
       \<not> look_alike (VW_resolveFileName decode d) f))"
  unfolding VW_downloadFile_def
  by (simp add: downloadTo_success file_exists_map_of)

subsection \<open>Timestamps and cycles\<close>

lemma stamp_le_refl [simp]: "stamp_le x x"
  by (cases x) auto

lemma stamp_le_trans: "stamp_le x y \<Longrightarrow> stamp_le y z \<Longrightarrow> stamp_le x z"
  by (cases x; cases y; cases z) auto

lemma follows_refl: "stamps_ok clk s \<Longrightarrow> follows clk s s"
  by (simp add: follows_def)

lemma follows_trans: "follows clk s s1 \<Longrightarrow> follows clk s1 s2 \<Longrightarrow> follows clk s s2"
  unfolding follows_def using stamp_le_trans by (auto intro: le_trans)

lemma follows_ok: "follows clk s s' \<Longrightarrow> stamps_ok clk s'"
  by (simp add: follows_def)

lemma stamp_le_later:
  "mono clk \<Longrightarrow> stamp_le x (Some (clk i)) \<Longrightarrow> i \<le> j \<Longrightarrow> stamp_le x (Some (clk j))"
  by (cases x) (auto dest: monoD intro: le_trans)

lemma updateProviderMetadata_follows:
  assumes "mono clk" "stamps_ok clk s"
  shows "follows clk s (updateProviderMetadata clk s)"
  using assms stamp_le_later [of clk "lastUpdate (metadata s)" "reads s" "reads s + 2"]
  by (simp add: follows_def stamps_ok_def updateProviderMetadata_def persisted_def)

lemma updateLastCheck_stamp:
  "persisted (updateLastCheck clk s) = Some (clk (reads s))"
  "lastUpdate (metadata (updateLastCheck clk s)) = Some (clk (reads s))"
  "reads (updateLastCheck clk s) = reads s + 3"
  by (simp_all add: updateLastCheck_def updateProviderMetadata_def writeMetadataFile_def
      persisted_def)

lemma updateLastCheck_follows:
  assumes "mono clk" "stamps_ok clk s"
  shows "follows clk s (updateLastCheck clk s)"
proof -
  from assms(2) have "stamp_le (persisted s) (Some (clk (reads s)))"
    unfolding stamps_ok_def using stamp_le_trans by blast
  moreover have "clk (reads s) \<le> clk (reads s + 3)"
    using assms(1) by (simp add: monoD)
  ultimately show ?thesis
    by (simp add: follows_def stamps_ok_def updateLastCheck_stamp)
qed

lemma updateMetadata_stamp:
  "persisted (updateMetadata clk c data s) = Some (clk (reads s))"
  "lastUpdate (metadata (updateMetadata clk c data s)) = Some (clk (reads s))"
  "reads (updateMetadata clk c data s) = reads s + 3"
  by (simp_all add: updateMetadata_def updateProviderMetadata_def writeMetadataFile_def
      persisted_def Let_def)

lemma updateMetadata_follows:
  assumes "mono clk" "stamps_ok clk s"
  shows "follows clk s (updateMetadata clk c data s)"
proof -
  from assms(2) have "stamp_le (persisted s) (Some (clk (reads s)))"
    unfolding stamps_ok_def using stamp_le_trans by blast
  moreover have "clk (reads s) \<le> clk (reads s + 3)"
    using assms(1) by (simp add: monoD)
  ultimately show ?thesis
    by (simp add: follows_def stamps_ok_def updateMetadata_stamp)
qed

lemma dir_only_follows:
  assumes "stamps_ok clk s" "metadata s' = metadata s" "metadata_file s' = metadata_file s"
    "reads s' = reads s"
  shows "follows clk s s'"
  using assms by (simp add: follows_def stamps_ok_def persisted_def)

lemma cleanupSimilarFiles_follows:
  "stamps_ok clk s \<Longrightarrow> follows clk s (cleanupSimilarFiles fn s)"
  by (rule dir_only_follows) (simp_all add: cleanupSimilarFiles_def)

lemma unlink_quiet_follows: "stamps_ok clk s \<Longrightarrow> follows clk s (unlink_quiet f s)"
  by (rule dir_only_follows) (simp_all add: unlink_quiet_def split: option.splits)

lemma write_file_follows: "stamps_ok clk s \<Longrightarrow> follows clk s (write_file f n s)"
  by (rule dir_only_follows) (simp_all add: write_file_def)

lemma reading_follows:
  assumes "mono clk" "stamps_ok clk s"
  shows "follows clk s (s\<lparr>reads := Suc (reads s)\<rparr>)"
  using assms stamp_le_later [of clk "lastUpdate (metadata s)" "reads s" "Suc (reads s)"]
  by (simp add: follows_def stamps_ok_def persisted_def)

lemma drop_record_follows:
  assumes "mono clk" "stamps_ok clk s"
  shows "follows clk s (updateProviderMetadata clk
           (writeMetadataFile (s\<lparr>dir := d, metadata := (metadata s)\<lparr>downloads := x\<rparr>\<rparr>)))"
  using assms stamp_le_later [of clk "lastUpdate (metadata s)" "reads s" "reads s + 2"]
  by (simp add: follows_def stamps_ok_def updateProviderMetadata_def writeMetadataFile_def
      persisted_def)

lemma cleanupOldVersions_follows:
  assumes "mono clk" "stamps_ok clk s"
  shows "follows clk s (cleanupOldVersions clk c fn s)"
proof -
  let ?s1 = "(case downloads (metadata s) of
          None \<Rightarrow> s
        | Some ds \<Rightarrow>
            (case ds c of
               None \<Rightarrow> s
             | Some existingDownload \<Rightarrow>
                 if fileName existingDownload \<noteq> [] \<and>
                    fileName existingDownload \<noteq> fn
                 then
                   (case unlink (fileName existingDownload) (dir s) of
                      None \<Rightarrow> s
                    | Some d \<Rightarrow>
                        updateProviderMetadata clk
                          (writeMetadataFile
                             (s\<lparr>dir := d,
                                metadata := (metadata s)\<lparr>downloads := Some (ds(c := None))\<rparr>\<rparr>)))
                 else s))"
  have "follows clk s ?s1"
    using assms by (auto simp: follows_refl drop_record_follows split: option.splits)
  moreover from this have "follows clk ?s1 (cleanupSimilarFiles fn ?s1)"
    by (intro cleanupSimilarFiles_follows follows_ok)
  ultimately show ?thesis
    unfolding cleanupOldVersions_def by (rule follows_trans)
qed

lemma downloadTo_returns: "settles tr \<Longrightarrow> downloadTo clk fn d tr s \<noteq> None"
  by (cases tr) (auto simp: downloadTo_def Let_def split: option.splits)

lemma downloadTo_follows:
  assumes "mono clk" "stamps_ok clk s" "downloadTo clk fn d tr s = Some r"
  shows "follows clk s (snd r)"
proof -
  let ?s1 = "cleanupOldVersions clk (category d) fn s"
  have 1: "follows clk s ?s1" using assms(1,2) by (rule cleanupOldVersions_follows)
  then have ok1: "stamps_ok clk ?s1" by (rule follows_ok)
  have gone: "follows clk s (unlink_quiet fn ?s1)"
    using follows_trans [OF 1 unlink_quiet_follows [OF ok1]] .
  have partial: "follows clk s (unlink_quiet fn (write_file fn n ?s1))" for n
  proof -
    have "follows clk ?s1 (write_file fn n ?s1)" using ok1 by (rule write_file_follows)
    then have "follows clk ?s1 (unlink_quiet fn (write_file fn n ?s1))"
      by (meson follows_trans follows_ok unlink_quiet_follows)
    with 1 show ?thesis by (rule follows_trans)
  qed
  show ?thesis
  proof (cases tr)
    case RequestFailed
    with assms(3) gone show ?thesis by (auto simp: downloadTo_def Let_def)
  next
    case (WriteFailed w)
    with assms(3) gone partial show ?thesis
      by (cases w) (auto simp: downloadTo_def Let_def)
  next
    case (SourceBroken n)
    with assms(3) show ?thesis by (simp add: downloadTo_def Let_def)
  next
    case (Completed n)
    let ?s2 = "write_file fn n ?s1"
    have 2: "follows clk ?s1 ?s2" using ok1 by (rule write_file_follows)
    then have ok2: "stamps_ok clk ?s2" by (rule follows_ok)
    show ?thesis
    proof (cases "0 < n")
      case True
      let ?s3 = "?s2\<lparr>reads := Suc (reads ?s2)\<rparr>"
      have 3: "follows clk ?s2 ?s3" using assms(1) ok2 by (rule reading_follows)
      then have ok3: "stamps_ok clk ?s3" by (rule follows_ok)
      have "follows clk ?s3 (updateMetadata clk (category d)
          (make_record d fn (downloadDir ?s1 @ ''/'' @ fn) n (clk (reads ?s2))) ?s3)"
        using assms(1) ok3 by (rule updateMetadata_follows)
      with 1 2 3 have "follows clk s (updateMetadata clk (category d)
          (make_record d fn (downloadDir ?s1 @ ''/'' @ fn) n (clk (reads ?s2))) ?s3)"
        by (meson follows_trans)
      with Completed True assms(3) show ?thesis by (auto simp: downloadTo_def Let_def)
    next
      case False
      with Completed assms(3) partial [of n] show ?thesis
        by (auto simp: downloadTo_def Let_def)
    qed
  qed
qed

lemma download_each_returns:
  assumes "\<And>u x. dl u (tr u) x \<noteq> None"
  shows "download_each dl tr us s \<noteq> None"
proof (induction us arbitrary: s)
  case Nil
  then show ?case by simp
next
  case (Cons u us)
  from assms [of u s] obtain b s1 where a: "dl u (tr u) s = Some (b, s1)" by auto
  from Cons.IH [of s1] obtain r where "download_each dl tr us s1 = Some r" by auto
  with a show ?case by (auto split: prod.splits)
qed

lemma download_each_follows:
  assumes dl: "\<And>u t x r. stamps_ok clk x \<Longrightarrow> dl u t x = Some r \<Longrightarrow> follows clk x (snd r)"
    and "stamps_ok clk s" "download_each dl tr us s = Some r"
  shows "follows clk s (snd (snd r))"
  using assms(2,3)
proof (induction us arbitrary: s r)
  case Nil
  then show ?case by (auto simp: follows_refl)
next
  case (Cons u us)
  from Cons.prems(2) obtain b s1 where a: "dl u (tr u) s = Some (b, s1)"
    by (auto split: option.splits)
  with Cons.prems(2) obtain r1 where
    b: "download_each dl tr us s1 = Some r1" and c: "snd (snd r) = snd (snd r1)"
    by (auto split: option.splits if_splits)
  have 1: "follows clk s s1" using dl [OF Cons.prems(1) a] by simp
  have 2: "follows clk s1 (snd (snd r1))" using Cons.IH [OF follows_ok [OF 1] b] .
  show ?case using follows_trans [OF 1 2] c by simp
qed

lemma loadMetadata_follows:
  assumes "stamps_ok clk s"
  shows "follows clk s (loadMetadata s)"
proof -
  from assms have "stamp_le (persisted s) (Some (clk (reads s)))"
    unfolding stamps_ok_def using stamp_le_trans by blast
  then show ?thesis
    by (cases "metadata_file s")
      (simp_all add: follows_def stamps_ok_def loadMetadata_def persisted_def
        empty_vendor_state_def)
qed

text \<open>A provider that starts without a state file has its timestamps in order.\<close>

lemma stamps_ok_without_file:
  "metadata_file s = Missing \<or> metadata_file s = Unparsable \<Longrightarrow>
     stamps_ok clk (loadMetadata s)"
  by (auto simp: stamps_ok_def loadMetadata_def persisted_def empty_vendor_state_def)

lemma BMW_login_follows: "stamps_ok clk s \<Longrightarrow> follows clk s (snd (BMW_login p s))"
  by (rule dir_only_follows)
    (simp_all add: BMW_login_def sendLoginFailureNotification_def split: option.splits)

lemma VW_login_follows: "stamps_ok clk s \<Longrightarrow> follows clk s (snd (VW_login p s))"
  by (rule dir_only_follows) (simp_all add: VW_login_def split: option.splits)

lemma sendNewVersionNotification_follows:
  "stamps_ok clk s \<Longrightarrow> follows clk s (sendNewVersionNotification us s)"
  by (rule dir_only_follows) (simp_all add: sendNewVersionNotification_def)

lemma downloadFile_returns: "settles tr \<Longrightarrow> downloadFile decode clk d tr s \<noteq> None"
  unfolding downloadFile_def by (rule downloadTo_returns)

lemma VW_downloadFile_returns: "settles tr \<Longrightarrow> VW_downloadFile decode clk d tr s \<noteq> None"
  unfolding VW_downloadFile_def by (rule downloadTo_returns)

text \<open>A transfer whose source stream breaks keeps \<open>downloadFile\<close> from returning.\<close>

lemma broken_source_never_returns:
  "downloadFile decode clk d (SourceBroken n) s = None"
  "VW_downloadFile decode clk d (SourceBroken n) s = None"
  by (simp_all add: downloadFile_def VW_downloadFile_def downloadTo_def Let_def)

lemma downloadFile_follows:
  "mono clk \<Longrightarrow> stamps_ok clk s \<Longrightarrow> downloadFile decode clk d tr s = Some r \<Longrightarrow>
     follows clk s (snd r)"
  unfolding downloadFile_def by (rule downloadTo_follows)

lemma VW_downloadFile_follows:
  "mono clk \<Longrightarrow> stamps_ok clk s \<Longrightarrow> VW_downloadFile decode clk d tr s = Some r \<Longrightarrow>
     follows clk s (snd r)"
  unfolding VW_downloadFile_def by (rule downloadTo_follows)

lemma BMW_checkApplicationUpdates_returns:
  assumes "\<And>d. settles (transfer_of env d)"
  shows "BMW_checkApplicationUpdates cfg env decode clk app s \<noteq> None"
proof -
  define us where "us = new_updates (metadata s)
      (case found (surface_of env app) of
         None \<Rightarrow> []
       | Some ds \<Rightarrow> BMW_categorizeDownloads cfg ds app)"
  have "download_each (downloadFile decode clk) (transfer_of env) us s \<noteq> None"
    using assms by (intro download_each_returns downloadFile_returns)
  then obtain q where "download_each (downloadFile decode clk) (transfer_of env) us s = Some q"
    by auto
  then show ?thesis
    by (simp add: BMW_checkApplicationUpdates_def Let_def us_def [symmetric] split_beta)
qed

lemma BMW_checkApplicationUpdates_follows:
  assumes "mono clk" "stamps_ok clk s"
    and "BMW_checkApplicationUpdates cfg env decode clk app s = Some r"
  shows "follows clk s (snd r)"
proof -
  have dl: "\<And>u t x r. stamps_ok clk x \<Longrightarrow> downloadFile decode clk u t x = Some r \<Longrightarrow>
      follows clk x (snd r)"
    using assms(1) by (rule downloadFile_follows)
  have each: "follows clk s (snd (snd q))"
    if "download_each (downloadFile decode clk) (transfer_of env) us s = Some q" for us q
    using dl assms(2) that by (rule download_each_follows)
  have "follows clk s (sendNewVersionNotification xs (snd (snd q)))"
    if "download_each (downloadFile decode clk) (transfer_of env) us s = Some q" for us q xs
    using each [OF that] by (meson follows_trans follows_ok sendNewVersionNotification_follows)
  then show ?thesis
    using assms(2,3)
    by (auto simp: BMW_checkApplicationUpdates_def Let_def follows_refl
        split: if_splits option.splits)
qed

text \<open>The three parts of a BMW cycle, named.\<close>

lemma BMW_checkForUpdates_unfold:
  fixes cfg env decode clk s
  defines "L \<equiv> (if \<not> isLoggedIn s then BMW_login (login_page env) s else (True, s))"
  defines "P \<equiv> BMW_checkApplicationUpdates cfg env decode clk ''ista-p'' (snd L)"
  defines "N \<equiv> BMW_checkApplicationUpdates cfg env decode clk ''ista-next'' (snd (the P))"
  shows "BMW_checkForUpdates cfg env decode clk s =
     (if \<not> fst L then Some (snd L)
      else if P = None \<or> N = None then None
      else Some (updateLastCheck clk (snd (the N))))"
  unfolding BMW_checkForUpdates_def N_def P_def L_def
  by (auto simp: split_beta split: option.splits)

lemma BMW_login_succeeds_iff:
  "fst (if \<not> isLoggedIn s then BMW_login (login_page env) s else (True, s)) \<longleftrightarrow>
     BMW_login_succeeds env s"
  by (auto simp: BMW_login_succeeds_def BMW_login_def split: option.splits)

lemma BMW_checkForUpdates_facts:
  assumes "mono clk" "stamps_ok clk s"
  shows "((\<forall>d. settles (transfer_of env d)) \<longrightarrow>
            BMW_checkForUpdates cfg env decode clk s \<noteq> None)"
    and "BMW_checkForUpdates cfg env decode clk s = Some s' \<Longrightarrow> follows clk s s'"
    and "BMW_checkForUpdates cfg env decode clk s = Some s' \<Longrightarrow> BMW_login_succeeds env s \<Longrightarrow>
           persisted s' = Some (clk (reads s' - 3)) \<and> reads s + 3 \<le> reads s'"
    and "BMW_checkForUpdates cfg env decode clk s = Some s' \<Longrightarrow> \<not> BMW_login_succeeds env s \<Longrightarrow>
           persisted s' = persisted s \<and> reads s' = reads s"
proof -
  define L where "L = (if \<not> isLoggedIn s then BMW_login (login_page env) s else (True, s))"
  define P where "P = BMW_checkApplicationUpdates cfg env decode clk ''ista-p'' (snd L)"
  define N where "N = BMW_checkApplicationUpdates cfg env decode clk ''ista-next'' (snd (the P))"
  have eq: "BMW_checkForUpdates cfg env decode clk s =
     (if \<not> fst L then Some (snd L)
      else if P = None \<or> N = None then None
      else Some (updateLastCheck clk (snd (the N))))"
    unfolding L_def P_def N_def by (rule BMW_checkForUpdates_unfold)
  have li: "fst L \<longleftrightarrow> BMW_login_succeeds env s"
    unfolding L_def by (rule BMW_login_succeeds_iff)
  have 0: "follows clk s (snd L)"
    unfolding L_def using assms(2) by (simp add: BMW_login_follows follows_refl)
  have same: "persisted (snd L) = persisted s \<and> reads (snd L) = reads s"
    unfolding L_def
    by (simp add: BMW_login_def sendLoginFailureNotification_def persisted_def
        split: option.splits)
  have 1: "follows clk s (snd (the P))" if "P \<noteq> None"
  proof -
    from that obtain r where r: "P = Some r" by auto
    then have "follows clk (snd L) (snd r)"
      unfolding P_def using assms(1) follows_ok [OF 0]
      by (intro BMW_checkApplicationUpdates_follows)
    with 0 r show ?thesis by (auto intro: follows_trans)
  qed
  have 2: "follows clk s (snd (the N))" if "P \<noteq> None" "N \<noteq> None"
  proof -
    from that(2) obtain r where r: "N = Some r" by auto
    then have "follows clk (snd (the P)) (snd r)"
      unfolding N_def using assms(1) follows_ok [OF 1 [OF that(1)]]
      by (intro BMW_checkApplicationUpdates_follows)
    with 1 [OF that(1)] r show ?thesis by (auto intro: follows_trans)
  qed
  show "(\<forall>d. settles (transfer_of env d)) \<longrightarrow> BMW_checkForUpdates cfg env decode clk s \<noteq> None"
    unfolding eq P_def N_def by (simp add: BMW_checkApplicationUpdates_returns)
  show "follows clk s s'" if "BMW_checkForUpdates cfg env decode clk s = Some s'"
  proof (cases "fst L")
    case False
    with that 0 show ?thesis unfolding eq by simp
  next
    case True
    with that have pn: "P \<noteq> None" "N \<noteq> None" and s': "s' = updateLastCheck clk (snd (the N))"
      unfolding eq by (auto split: if_splits)
    from 2 [OF pn] show ?thesis
      unfolding s' by (meson follows_trans follows_ok updateLastCheck_follows assms(1))
  qed
  show "persisted s' = Some (clk (reads s' - 3)) \<and> reads s + 3 \<le> reads s'"
    if "BMW_checkForUpdates cfg env decode clk s = Some s'" "BMW_login_succeeds env s"
  proof -
    from that li have pn: "P \<noteq> None" "N \<noteq> None" and s': "s' = updateLastCheck clk (snd (the N))"
      unfolding eq by (auto split: if_splits)
    from 2 [OF pn] have "reads s \<le> reads (snd (the N))" by (simp add: follows_def)
    then show ?thesis unfolding s' by (simp add: updateLastCheck_stamp)
  qed
  show "persisted s' = persisted s \<and> reads s' = reads s"
    if "BMW_checkForUpdates cfg env decode clk s = Some s'" "\<not> BMW_login_succeeds env s"
    using that li same unfolding eq by auto
qed

lemma VW_navigateToDownloads_follows:
  "stamps_ok clk s \<Longrightarrow> follows clk s (snd (VW_navigateToDownloads env s))"
  by (rule dir_only_follows)
    (simp_all add: VW_navigateToDownloads_def VW_login_def split: option.splits)

text \<open>The three parts of a VW cycle, named.\<close>

lemma VW_checkForUpdates_unfold:
  fixes filt env decode clk s
  defines "L \<equiv> (if \<not> status_before env \<or> \<not> isLoggedIn s
            then VW_login (first_login env) s else (True, s))"
  defines "N \<equiv> VW_navigateToDownloads env (snd L)"
  defines "D \<equiv> download_each (VW_downloadFile decode clk) (vw_transfer_of env)
      (new_updates (metadata (snd N))
         (case vw_found env of None \<Rightarrow> [] | Some ds \<Rightarrow> VW_categorizeDownloads filt ds))
      (snd N)"
  shows "VW_checkForUpdates filt env decode clk s =
     (if \<not> fst L then Some (None, snd L)
      else if \<not> fst N then Some (None, snd N)
      else if D = None then None
      else Some (Some (length (fst (the D)), fst (snd (the D))),
                 updateLastCheck clk (snd (snd (the D)))))"
  unfolding VW_checkForUpdates_def D_def N_def L_def
  by (auto simp: split_beta Let_def split: option.splits)

lemma VW_login_succeeds_iff:
  "fst (if \<not> status_before env \<or> \<not> isLoggedIn s
        then VW_login (first_login env) s else (True, s)) \<longleftrightarrow> VW_login_succeeds env s"
  by (auto simp: VW_login_succeeds_def VW_login_def split: option.splits)

lemma VW_navigation_succeeds_iff:
  "fst (VW_navigateToDownloads env s) \<longleftrightarrow> VW_navigation_succeeds env"
  by (auto simp: VW_navigation_succeeds_def VW_navigateToDownloads_def VW_login_def
      split: option.splits)

lemma VW_checkForUpdates_facts:
  assumes "mono clk" "stamps_ok clk s"
  shows "((\<forall>d. settles (vw_transfer_of env d)) \<longrightarrow>
            VW_checkForUpdates filt env decode clk s \<noteq> None)"
    and "VW_checkForUpdates filt env decode clk s = Some r \<Longrightarrow> follows clk s (snd r)"
    and "VW_checkForUpdates filt env decode clk s = Some r \<Longrightarrow>
           VW_login_succeeds env s \<and> VW_navigation_succeeds env \<Longrightarrow>
           fst r \<noteq> None \<and> persisted (snd r) = Some (clk (reads (snd r) - 3)) \<and>
           reads s + 3 \<le> reads (snd r)"
    and "VW_checkForUpdates filt env decode clk s = Some r \<Longrightarrow>
           \<not> (VW_login_succeeds env s \<and> VW_navigation_succeeds env) \<Longrightarrow>
           fst r = None \<and> persisted (snd r) = persisted s \<and> reads (snd r) = reads s"
proof -
  define L where "L = (if \<not> status_before env \<or> \<not> isLoggedIn s
            then VW_login (first_login env) s else (True, s))"
  define N where "N = VW_navigateToDownloads env (snd L)"
  define D where "D = download_each (VW_downloadFile decode clk) (vw_transfer_of env)
      (new_updates (metadata (snd N))
         (case vw_found env of None \<Rightarrow> [] | Some ds \<Rightarrow> VW_categorizeDownloads filt ds))
      (snd N)"
  have eq: "VW_checkForUpdates filt env decode clk s =
     (if \<not> fst L then Some (None, snd L)
      else if \<not> fst N then Some (None, snd N)
      else if D = None then None
      else Some (Some (length (fst (the D)), fst (snd (the D))),
                 updateLastCheck clk (snd (snd (the D)))))"
    unfolding L_def N_def D_def by (rule VW_checkForUpdates_unfold)
  have li: "fst L \<longleftrightarrow> VW_login_succeeds env s"
    unfolding L_def by (rule VW_login_succeeds_iff)
  have ni: "fst N \<longleftrightarrow> VW_navigation_succeeds env"
    unfolding N_def by (rule VW_navigation_succeeds_iff)
  have 0: "follows clk s (snd L)"
    unfolding L_def using assms(2) by (simp add: VW_login_follows follows_refl)
  then have 1: "follows clk s (snd N)"
    unfolding N_def by (meson follows_trans follows_ok VW_navigateToDownloads_follows)
  have ok1: "stamps_ok clk (snd N)" using 1 by (rule follows_ok)
  have sameL: "persisted (snd L) = persisted s \<and> reads (snd L) = reads s"
    unfolding L_def by (simp add: VW_login_def persisted_def split: option.splits)
  have sameN: "persisted (snd N) = persisted s \<and> reads (snd N) = reads s"
    using sameL unfolding N_def
    by (simp add: VW_navigateToDownloads_def VW_login_def persisted_def split: option.splits)
  have dl: "\<And>u t x r. stamps_ok clk x \<Longrightarrow> VW_downloadFile decode clk u t x = Some r \<Longrightarrow>
      follows clk x (snd r)"
    using assms(1) by (rule VW_downloadFile_follows)
  have 2: "follows clk s (snd (snd (the D)))" if "D \<noteq> None"
  proof -
    from that obtain q where q: "D = Some q" by auto
    then have "follows clk (snd N) (snd (snd q))"
      unfolding D_def using dl ok1 by (intro download_each_follows)
    with 1 q show ?thesis by (auto intro: follows_trans)
  qed
  show "(\<forall>d. settles (vw_transfer_of env d)) \<longrightarrow> VW_checkForUpdates filt env decode clk s \<noteq> None"
    unfolding eq D_def by (simp add: download_each_returns VW_downloadFile_returns)
  show "follows clk s (snd r)" if "VW_checkForUpdates filt env decode clk s = Some r"
  proof -
    consider "\<not> fst L" | "fst L" "\<not> fst N" | "fst L" "fst N" by blast
    then show ?thesis
    proof cases
      case 1
      with that 0 show ?thesis unfolding eq by auto
    next
      case 2
      with that \<open>follows clk s (snd N)\<close> show ?thesis unfolding eq by auto
    next
      case 3
      with that have d: "D \<noteq> None" and r: "snd r = updateLastCheck clk (snd (snd (the D)))"
        unfolding eq by (auto split: if_splits)
      from 2 [OF d] show ?thesis
        unfolding r by (meson follows_trans follows_ok updateLastCheck_follows assms(1))
    qed
  qed
  show "fst r \<noteq> None \<and> persisted (snd r) = Some (clk (reads (snd r) - 3)) \<and>
        reads s + 3 \<le> reads (snd r)"
    if "VW_checkForUpdates filt env decode clk s = Some r"
      "VW_login_succeeds env s \<and> VW_navigation_succeeds env"
  proof -
    from that li ni have d: "D \<noteq> None" and r: "snd r = updateLastCheck clk (snd (snd (the D)))"
      and f: "fst r \<noteq> None"
      unfolding eq by (auto split: if_splits)
    from 2 [OF d] have "reads s \<le> reads (snd (snd (the D)))" by (simp add: follows_def)
    then show ?thesis using f unfolding r by (simp add: updateLastCheck_stamp)
  qed
  show "fst r = None \<and> persisted (snd r) = persisted s \<and> reads (snd r) = reads s"
    if "VW_checkForUpdates filt env decode clk s = Some r"
      "\<not> (VW_login_succeeds env s \<and> VW_navigation_succeeds env)"
    using that li ni sameL sameN unfolding eq by (auto split: if_splits)
qed

text \<open>
  C8 (as amended). Let the readings of the clock never decrease, and let the
  timestamps of a provider be in order: the one on file is not later than the one in
  memory, and that one is not later than the clock. Then after each operation that
  changes the state (\<open>updateMetadata\<close>, \<open>updateLastCheck\<close>, \<open>cleanupOldVersions\<close>, a
  \<open>downloadFile\<close> of either provider that returns, a check cycle of either provider that
  returns, and also \<open>loadMetadata\<close>) the \<open>lastUpdate\<close> on file is not earlier than before
  and the timestamps are in order again, so the same holds for any sequence of such
  operations. A \<open>downloadFile\<close> returns when its transfer settles, and a cycle returns
  when every transfer settles. A cycle in which the login succeeds (and, for VW, the
  navigation as well) ends with \<open>updateLastCheck\<close>: the \<open>lastUpdate\<close> on file is then the
  clock reading that call took, a reading of this cycle (the third last, the last two
  being those of the aggregate update), whether or not anything was downloaded. A cycle
  in which the login or the navigation fails returns early and leaves the \<open>lastUpdate\<close>
  on file as it was.
\<close>

theorem lastUpdate_never_decreases:
  assumes "mono clk" and "stamps_ok clk s"
  shows
    "follows clk s (loadMetadata s) \<and>
     follows clk s (updateMetadata clk c data s) \<and>
     follows clk s (updateLastCheck clk s) \<and>
     follows clk s (cleanupOldVersions clk c fn s) \<and>
     (settles tr \<longrightarrow>
        downloadFile decode clk d tr s \<noteq> None \<and>
        follows clk s (snd (the (downloadFile decode clk d tr s))) \<and>
        VW_downloadFile decode clk d tr s \<noteq> None \<and>
        follows clk s (snd (the (VW_downloadFile decode clk d tr s)))) \<and>
     ((\<forall>u. settles (transfer_of benv u)) \<longrightarrow>
        BMW_checkForUpdates cfg benv decode clk s \<noteq> None \<and>
        follows clk s (the (BMW_checkForUpdates cfg benv decode clk s)) \<and>
        (BMW_login_succeeds benv s \<longrightarrow>
           persisted (the (BMW_checkForUpdates cfg benv decode clk s)) =
             Some (clk (reads (the (BMW_checkForUpdates cfg benv decode clk s)) - 3)) \<and>
           reads s + 3 \<le> reads (the (BMW_checkForUpdates cfg benv decode clk s))) \<and>
        (\<not> BMW_login_succeeds benv s \<longrightarrow>
           persisted (the (BMW_checkForUpdates cfg benv decode clk s)) = persisted s)) \<and>
     ((\<forall>u. settles (vw_transfer_of venv u)) \<longrightarrow>
        VW_checkForUpdates filt venv decode clk s \<noteq> None \<and>
        follows clk s (snd (the (VW_checkForUpdates filt venv decode clk s))) \<and>
        (VW_login_succeeds venv s \<and> VW_navigation_succeeds venv \<longrightarrow>
           persisted (snd (the (VW_checkForUpdates filt venv decode clk s))) =
             Some (clk (reads (snd (the (VW_checkForUpdates filt venv decode clk s))) - 3)) \<and>
           reads s + 3 \<le> reads (snd (the (VW_checkForUpdates filt venv decode clk s)))) \<and>
        (\<not> (VW_login_succeeds venv s \<and> VW_navigation_succeeds venv) \<longrightarrow>
           persisted (snd (the (VW_checkForUpdates filt venv decode clk s))) = persisted s))"
proof -
  have basic: "follows clk s (loadMetadata s) \<and>
     follows clk s (updateMetadata clk c data s) \<and>
     follows clk s (updateLastCheck clk s) \<and>
     follows clk s (cleanupOldVersions clk c fn s)"
    using assms
    by (simp add: loadMetadata_follows updateMetadata_follows updateLastCheck_follows
        cleanupOldVersions_follows)
  have dl: "downloadFile decode clk d tr s \<noteq> None \<and>
        follows clk s (snd (the (downloadFile decode clk d tr s))) \<and>
        VW_downloadFile decode clk d tr s \<noteq> None \<and>
        follows clk s (snd (the (VW_downloadFile decode clk d tr s)))" if "settles tr"
  proof -
    from that obtain r where r: "downloadFile decode clk d tr s = Some r"
      using downloadFile_returns [of tr decode clk d s] by auto
    from that obtain q where q: "VW_downloadFile decode clk d tr s = Some q"
      using VW_downloadFile_returns [of tr decode clk d s] by auto
    from r q downloadFile_follows [OF assms r] VW_downloadFile_follows [OF assms q]
    show ?thesis by simp
  qed
  have bmw: "BMW_checkForUpdates cfg benv decode clk s \<noteq> None \<and>
        follows clk s (the (BMW_checkForUpdates cfg benv decode clk s)) \<and>
        (BMW_login_succeeds benv s \<longrightarrow>
           persisted (the (BMW_checkForUpdates cfg benv decode clk s)) =
             Some (clk (reads (the (BMW_checkForUpdates cfg benv decode clk s)) - 3)) \<and>
           reads s + 3 \<le> reads (the (BMW_checkForUpdates cfg benv decode clk s))) \<and>
        (\<not> BMW_login_succeeds benv s \<longrightarrow>
           persisted (the (BMW_checkForUpdates cfg benv decode clk s)) = persisted s)"
    if "\<forall>u. settles (transfer_of benv u)"
  proof -
    from that BMW_checkForUpdates_facts(1) [OF assms, of benv cfg decode]
    obtain s' where s': "BMW_checkForUpdates cfg benv decode clk s = Some s'" by auto
    from BMW_checkForUpdates_facts(2-4) [OF assms s'] s' show ?thesis by simp
  qed
  have vw: "VW_checkForUpdates filt venv decode clk s \<noteq> None \<and>
        follows clk s (snd (the (VW_checkForUpdates filt venv decode clk s))) \<and>
        (VW_login_succeeds venv s \<and> VW_navigation_succeeds venv \<longrightarrow>
           persisted (snd (the (VW_checkForUpdates filt venv decode clk s))) =
             Some (clk (reads (snd (the (VW_checkForUpdates filt venv decode clk s))) - 3)) \<and>
           reads s + 3 \<le> reads (snd (the (VW_checkForUpdates filt venv decode clk s)))) \<and>
        (\<not> (VW_login_succeeds venv s \<and> VW_navigation_succeeds venv) \<longrightarrow>
           persisted (snd (the (VW_checkForUpdates filt venv decode clk s))) = persisted s)"
    if "\<forall>u. settles (vw_transfer_of venv u)"
  proof -
    from that VW_checkForUpdates_facts(1) [OF assms, of venv filt decode]
    obtain r where r: "VW_checkForUpdates filt venv decode clk s = Some r" by auto
    from VW_checkForUpdates_facts(2-4) [OF assms r] r show ?thesis by simp
  qed
  from basic dl bmw vw show ?thesis by blast
qed

text \<open>
  A download that succeeds, a cycle in which the portal offers nothing, for each
  provider, and a cycle whose login is turned down, for each provider.
\<close>

theorem lastUpdate_never_decreases_witness:
  "stamp_le (persisted tool_state) (persisted (updateLastCheck tick_clock tool_state)) \<and>
   map_option fst (downloadFile plain_decode tick_clock tool_update (Completed 7) tool_state) =
     Some True \<and>
   stamp_le (persisted tool_state)
     (persisted (snd (the (downloadFile plain_decode tick_clock tool_update (Completed 7)
        tool_state)))) \<and>
   persisted (the (BMW_checkForUpdates ista_config quiet_bmw_cycle plain_decode tick_clock
     tool_state)) = Some 1000 \<and>
   persisted (snd (the (VW_checkForUpdates [] quiet_vw_cycle plain_decode tick_clock
     tool_state))) = Some 1000 \<and>
   persisted (the (BMW_checkForUpdates ista_config
     (quiet_bmw_cycle\<lparr>login_page := bmw_denied_page\<rparr>) plain_decode tick_clock
     (tool_state\<lparr>isLoggedIn := False\<rparr>))) = Some 1 \<and>
   persisted (snd (the (VW_checkForUpdates []
     (quiet_vw_cycle\<lparr>first_login := vw_denied_page\<rparr>) plain_decode tick_clock
     (tool_state\<lparr>isLoggedIn := False\<rparr>)))) = Some 1"
proof -
  have m: "mono tick_clock" by (simp add: mono_def tick_clock_def)
  have ok: "stamps_ok tick_clock tool_state" by code_simp
  have ok': "stamps_ok tick_clock (tool_state\<lparr>isLoggedIn := False\<rparr>)" by code_simp
  have tr: "settles (Completed 7)" by simp
  have st: "\<forall>u. settles (transfer_of quiet_bmw_cycle u)"
    by (simp add: quiet_bmw_cycle_def no_transfer_def)
  have st': "\<forall>u. settles (transfer_of (quiet_bmw_cycle\<lparr>login_page := bmw_denied_page\<rparr>) u)"
    by (simp add: quiet_bmw_cycle_def no_transfer_def)
  have vst: "\<forall>u. settles (vw_transfer_of quiet_vw_cycle u)"
    by (simp add: quiet_vw_cycle_def no_transfer_def)
  have li: "BMW_login_succeeds quiet_bmw_cycle tool_state" by code_simp
  have nli: "\<not> BMW_login_succeeds (quiet_bmw_cycle\<lparr>login_page := bmw_denied_page\<rparr>)
      (tool_state\<lparr>isLoggedIn := False\<rparr>)" by code_simp
  have vli: "VW_login_succeeds quiet_vw_cycle tool_state \<and> VW_navigation_succeeds quiet_vw_cycle"
    by code_simp
  have vst': "\<forall>u. settles (vw_transfer_of (quiet_vw_cycle\<lparr>first_login := vw_denied_page\<rparr>) u)"
    by (simp add: quiet_vw_cycle_def no_transfer_def)
  have nvli: "\<not> (VW_login_succeeds (quiet_vw_cycle\<lparr>first_login := vw_denied_page\<rparr>)
      (tool_state\<lparr>isLoggedIn := False\<rparr>) \<and>
      VW_navigation_succeeds (quiet_vw_cycle\<lparr>first_login := vw_denied_page\<rparr>))" by code_simp
  have res: "map_option fst (downloadFile plain_decode tick_clock tool_update (Completed 7)
      tool_state) = Some True" by code_simp
  have r: "reads (the (BMW_checkForUpdates ista_config quiet_bmw_cycle plain_decode tick_clock
      tool_state)) = 3" by code_simp
  have vr: "reads (snd (the (VW_checkForUpdates [] quiet_vw_cycle plain_decode tick_clock
      tool_state))) = 3" by code_simp
  have p: "persisted tool_state = Some 1" "persisted (tool_state\<lparr>isLoggedIn := False\<rparr>) = Some 1"
    by code_simp+
  from lastUpdate_never_decreases [OF m ok, where c = "''installer''" and data = tool_record
      and fn = "''Tool_1.1.0.exe''" and tr = "Completed 7" and decode = plain_decode
      and d = tool_update and benv = quiet_bmw_cycle and cfg = ista_config
      and venv = quiet_vw_cycle and filt = "[]"]
    lastUpdate_never_decreases [OF m ok', where c = "''installer''" and data = tool_record
      and fn = "''Tool_1.1.0.exe''" and tr = "Completed 7" and decode = plain_decode
      and d = tool_update and benv = "quiet_bmw_cycle\<lparr>login_page := bmw_denied_page\<rparr>"
      and cfg = ista_config and venv = "quiet_vw_cycle\<lparr>first_login := vw_denied_page\<rparr>"
      and filt = "[]"]
    tr st st' vst vst' li nli vli nvli res r vr p
  show ?thesis by (simp add: follows_def tick_clock_def)
qed

text \<open>
  C8 as stated fails. The provider starts without a state file and runs two cycles in
  which the login succeeds and the portal offers nothing. Between them the clock is set
  back, and the \<open>lastUpdate\<close> on file, 2000 after the first cycle, is 1503 after the
  second: \<open>updateLastCheck\<close> writes the reading it takes, whatever is on file.
\<close>

theorem lastUpdate_counterexample:
  "map_option persisted after_first_cycle = Some (Some 2000) \<and>
   map_option persisted after_second_cycle = Some (Some 1503)"
  by code_simp

subsection \<open>Recorded versions\<close>

text \<open>
  Every state the program produces has its recorded versions in order: a provider
  that starts without a readable state file has no record, and every operation keeps
  the property, since the version of a record is the one \<open>categorizeDownloads\<close> took
  from \<open>extractVersion\<close>.
\<close>

lemma recorded_versions_ok_empty: "recorded_versions_ok empty_vendor_state"
  by (simp add: recorded_versions_ok_def record_of_def empty_vendor_state_def)

lemma recorded_versions_ok_start:
  "metadata_file s = Missing \<or> metadata_file s = Unparsable \<Longrightarrow>
     state_versions_ok (loadMetadata s)"
  by (auto simp: state_versions_ok_def loadMetadata_def recorded_versions_ok_empty)

lemma loadMetadata_versions_ok: "state_versions_ok s \<Longrightarrow> state_versions_ok (loadMetadata s)"
  by (cases "metadata_file s")
    (simp_all add: state_versions_ok_def loadMetadata_def recorded_versions_ok_empty)

lemma same_records_versions_ok:
  assumes "state_versions_ok s" "metadata s' = metadata s" "metadata_file s' = metadata_file s"
  shows "state_versions_ok s'"
  using assms by (simp add: state_versions_ok_def)

lemma written_versions_ok:
  assumes "recorded_versions_ok (metadata s)"
  shows "state_versions_ok (updateProviderMetadata clk (writeMetadataFile s))"
  using assms
  by (simp add: state_versions_ok_def updateProviderMetadata_def writeMetadataFile_def)

lemma updateMetadata_versions_ok:
  assumes "state_versions_ok s" "version data \<noteq> []"
  shows "state_versions_ok (updateMetadata clk c data s)"
proof -
  have "recorded_versions_ok
      \<lparr>lastUpdate = Some (clk (reads s)),
       downloads = Some ((case downloads (metadata s) of None \<Rightarrow> Map.empty | Some ds \<Rightarrow> ds)
                           (c \<mapsto> data))\<rparr>"
    using assms
    by (auto simp: state_versions_ok_def recorded_versions_ok_def record_of_def
        split: option.splits if_splits)
  then show ?thesis
    unfolding updateMetadata_def Let_def by (intro written_versions_ok) simp
qed

lemma updateLastCheck_versions_ok:
  assumes "state_versions_ok s"
  shows "state_versions_ok (updateLastCheck clk s)"
proof -
  have "recorded_versions_ok ((metadata s)\<lparr>lastUpdate := Some (clk (reads s))\<rparr>)"
    using assms by (simp add: state_versions_ok_def recorded_versions_ok_def record_of_def)
  then show ?thesis
    unfolding updateLastCheck_def by (intro written_versions_ok) simp
qed

lemma drop_record_versions_ok:
  assumes "state_versions_ok s" "downloads (metadata s) = Some ds"
  shows "state_versions_ok (updateProviderMetadata clk
           (writeMetadataFile
              (s\<lparr>dir := d, metadata := (metadata s)\<lparr>downloads := Some (ds(c := None))\<rparr>\<rparr>)))"
proof -
  have "recorded_versions_ok ((metadata s)\<lparr>downloads := Some (ds(c := None))\<rparr>)"
    using assms
    by (auto simp: state_versions_ok_def recorded_versions_ok_def record_of_def
        split: if_splits)
  then show ?thesis by (intro written_versions_ok) simp
qed

lemma cleanupOldVersions_versions_ok:
  assumes "state_versions_ok s"
  shows "state_versions_ok (cleanupOldVersions clk c fn s)"
proof -
  let ?s1 = "(case downloads (metadata s) of
          None \<Rightarrow> s
        | Some ds \<Rightarrow>
            (case ds c of
               None \<Rightarrow> s
             | Some existingDownload \<Rightarrow>
                 if fileName existingDownload \<noteq> [] \<and>
                    fileName existingDownload \<noteq> fn
                 then
                   (case unlink (fileName existingDownload) (dir s) of
                      None \<Rightarrow> s
                    | Some d \<Rightarrow>
                        updateProviderMetadata clk
                          (writeMetadataFile
                             (s\<lparr>dir := d,
                                metadata := (metadata s)\<lparr>downloads := Some (ds(c := None))\<rparr>\<rparr>)))
                 else s))"
  have "state_versions_ok ?s1"
    using assms by (auto simp: drop_record_versions_ok split: option.splits)
  then have "state_versions_ok (cleanupSimilarFiles fn ?s1)"
    by (rule same_records_versions_ok) (simp_all add: cleanupSimilarFiles_def)
  then show ?thesis unfolding cleanupOldVersions_def .
qed

lemma unlink_quiet_versions_ok: "state_versions_ok s \<Longrightarrow> state_versions_ok (unlink_quiet f s)"
  by (simp add: state_versions_ok_def unlink_quiet_def split: option.splits)

lemma write_file_versions_ok: "state_versions_ok s \<Longrightarrow> state_versions_ok (write_file f n s)"
  by (simp add: state_versions_ok_def write_file_def)

lemma downloadTo_versions_ok:
  assumes "state_versions_ok s" "version d \<noteq> []" "downloadTo clk fn d tr s = Some r"
  shows "state_versions_ok (snd r)"
proof -
  let ?s1 = "cleanupOldVersions clk (category d) fn s"
  have 1: "state_versions_ok ?s1" using assms(1) by (rule cleanupOldVersions_versions_ok)
  have 2: "state_versions_ok (write_file fn n ?s1)" for n
    using 1 by (rule write_file_versions_ok)
  have 3: "state_versions_ok ((write_file fn n ?s1)\<lparr>reads := Suc (reads (write_file fn n ?s1))\<rparr>)"
    for n
    using 2 [of n] by (rule same_records_versions_ok) simp_all
  have 4: "state_versions_ok (updateMetadata clk (category d) (make_record d fn fp n t)
      ((write_file fn n ?s1)\<lparr>reads := Suc (reads (write_file fn n ?s1))\<rparr>))" for n fp t
    using 3 [of n] assms(2) by (intro updateMetadata_versions_ok) (simp_all add: make_record_def)
  show ?thesis
  proof (cases tr)
    case RequestFailed
    with assms(3) 1 show ?thesis
      by (auto simp: downloadTo_def Let_def unlink_quiet_versions_ok)
  next
    case (WriteFailed w)
    with assms(3) 1 2 show ?thesis
      by (cases w) (auto simp: downloadTo_def Let_def unlink_quiet_versions_ok)
  next
    case (SourceBroken n)
    with assms(3) show ?thesis by (simp add: downloadTo_def Let_def)
  next
    case (Completed n)
    with assms(3) 2 4 show ?thesis
      by (auto simp: downloadTo_def Let_def unlink_quiet_versions_ok split: if_splits)
  qed
qed

text \<open>
  A \<open>downloadFile\<close> of an artifact whose version is not empty keeps the recorded
  versions in order, for either provider.
\<close>

lemma downloadFile_versions_ok:
  assumes "state_versions_ok s" "version d \<noteq> []"
  shows "downloadFile decode clk d tr s = Some r \<Longrightarrow> state_versions_ok (snd r)"
    and "VW_downloadFile decode clk d tr s = Some r \<Longrightarrow> state_versions_ok (snd r)"
  using assms unfolding downloadFile_def VW_downloadFile_def
  by (auto intro: downloadTo_versions_ok)

lemma download_each_versions_ok:
  assumes dl: "\<And>u t x r. state_versions_ok x \<Longrightarrow> version u \<noteq> [] \<Longrightarrow> dl u t x = Some r \<Longrightarrow>
      state_versions_ok (snd r)"
    and "state_versions_ok s" "\<forall>u\<in>set us. version u \<noteq> []"
    and "download_each dl tr us s = Some r"
  shows "state_versions_ok (snd (snd r))"
  using assms(2-4)
proof (induction us arbitrary: s r)
  case Nil
  then show ?case by auto
next
  case (Cons u us)
  from Cons.prems(3) obtain b s1 where a: "dl u (tr u) s = Some (b, s1)"
    by (auto split: option.splits)
  with Cons.prems(3) obtain r1 where
    b: "download_each dl tr us s1 = Some r1" and c: "snd (snd r) = snd (snd r1)"
    by (auto split: option.splits if_splits)
  have 1: "state_versions_ok s1" using dl [OF Cons.prems(1) _ a] Cons.prems(2) by simp
  have "state_versions_ok (snd (snd r1))"
    using Cons.IH [OF 1 _ b] Cons.prems(2) by simp
  with c show ?case by simp
qed

lemma BMW_categorize_one_versions:
  "\<forall>x\<in>set acc. version (snd x) \<noteq> [] \<Longrightarrow>
     \<forall>x\<in>set (BMW_categorize_one cfg app acc d). version (snd x) \<noteq> []"
  by (auto simp: BMW_categorize_one_def BMW_artifact_def Let_def extractVersion_nonempty
      split: option.splits if_splits)

lemma VW_categorize_one_versions:
  "\<forall>x\<in>set acc. version (snd x) \<noteq> [] \<Longrightarrow>
     \<forall>x\<in>set (VW_categorize_one filt acc d). version (snd x) \<noteq> []"
  by (auto simp: VW_categorize_one_def VW_artifact_def VW_extractVersion_nonempty
      split: option.splits if_splits)

lemma categorized_versions:
  "\<forall>x\<in>set (BMW_categorizeDownloads cfg ds app). version (snd x) \<noteq> []"
  "\<forall>x\<in>set (VW_categorizeDownloads filt ds). version (snd x) \<noteq> []"
proof -
  have "\<forall>x\<in>set acc. version (snd x) \<noteq> [] \<Longrightarrow>
      \<forall>x\<in>set (foldl (BMW_categorize_one cfg app) acc ds). version (snd x) \<noteq> []" for acc
  proof (induction ds arbitrary: acc)
    case Nil
    then show ?case by simp
  next
    case (Cons d ds)
    from Cons.IH [OF BMW_categorize_one_versions [OF Cons.prems]] show ?case by simp
  qed
  from this [of "[]"]
  show "\<forall>x\<in>set (BMW_categorizeDownloads cfg ds app). version (snd x) \<noteq> []"
    by (simp add: BMW_categorizeDownloads_def)
  have "\<forall>x\<in>set acc. version (snd x) \<noteq> [] \<Longrightarrow>
      \<forall>x\<in>set (foldl (VW_categorize_one filt) acc ds). version (snd x) \<noteq> []" for acc
  proof (induction ds arbitrary: acc)
    case Nil
    then show ?case by simp
  next
    case (Cons d ds)
    from Cons.IH [OF VW_categorize_one_versions [OF Cons.prems]] show ?case by simp
  qed
  from this [of "[]"]
  show "\<forall>x\<in>set (VW_categorizeDownloads filt ds). version (snd x) \<noteq> []"
    by (simp add: VW_categorizeDownloads_def)
qed

lemma new_updates_versions:
  "\<forall>x\<in>set categorized. version (snd x) \<noteq> [] \<Longrightarrow>
     \<forall>u\<in>set (new_updates m categorized). version u \<noteq> []"
  by (auto simp: new_updates_def)

lemma BMW_checkApplicationUpdates_versions_ok:
  assumes "state_versions_ok s"
    and "BMW_checkApplicationUpdates cfg env decode clk app s = Some r"
  shows "state_versions_ok (snd r)"
proof -
  define us where "us = new_updates (metadata s)
      (case found (surface_of env app) of
         None \<Rightarrow> []
       | Some ds \<Rightarrow> BMW_categorizeDownloads cfg ds app)"
  have v: "\<forall>u\<in>set us. version u \<noteq> []"
  proof (cases "found (surface_of env app)")
    case None
    then show ?thesis by (simp add: us_def new_updates_def)
  next
    case (Some ds)
    from new_updates_versions [OF categorized_versions(1)] Some show ?thesis
      by (simp add: us_def)
  qed
  have each: "state_versions_ok (snd (snd q))"
    if "download_each (downloadFile decode clk) (transfer_of env) us s = Some q" for q
    using downloadFile_versions_ok(1) assms(1) v that by (rule download_each_versions_ok)
  have "state_versions_ok (sendNewVersionNotification xs (snd (snd q)))"
    if "download_each (downloadFile decode clk) (transfer_of env) us s = Some q" for q xs
    using each [OF that]
    by (rule same_records_versions_ok) (simp_all add: sendNewVersionNotification_def)
  then show ?thesis
    using assms
    by (auto simp: BMW_checkApplicationUpdates_def Let_def us_def [symmetric]
        split: if_splits option.splits)
qed

text \<open>A check cycle that returns keeps the recorded versions in order.\<close>

lemma BMW_checkForUpdates_versions_ok:
  assumes "state_versions_ok s" "BMW_checkForUpdates cfg env decode clk s = Some s'"
  shows "state_versions_ok s'"
proof -
  define L where "L = (if \<not> isLoggedIn s then BMW_login (login_page env) s else (True, s))"
  define P where "P = BMW_checkApplicationUpdates cfg env decode clk ''ista-p'' (snd L)"
  define N where "N = BMW_checkApplicationUpdates cfg env decode clk ''ista-next'' (snd (the P))"
  have eq: "BMW_checkForUpdates cfg env decode clk s =
     (if \<not> fst L then Some (snd L)
      else if P = None \<or> N = None then None
      else Some (updateLastCheck clk (snd (the N))))"
    unfolding L_def P_def N_def by (rule BMW_checkForUpdates_unfold)
  have 0: "state_versions_ok (snd L)"
    unfolding L_def using assms(1)
    by (rule same_records_versions_ok)
      (simp_all add: BMW_login_def sendLoginFailureNotification_def split: option.splits)
  have 1: "state_versions_ok (snd (the P))" if "P \<noteq> None"
    using that 0 unfolding P_def by (auto intro: BMW_checkApplicationUpdates_versions_ok)
  have 2: "state_versions_ok (snd (the N))" if "P \<noteq> None" "N \<noteq> None"
    using that(2) 1 [OF that(1)] unfolding N_def
    by (auto intro: BMW_checkApplicationUpdates_versions_ok)
  show ?thesis
    using assms(2) 0 2 unfolding eq
    by (auto simp: updateLastCheck_versions_ok split: if_splits)
qed

lemma VW_checkForUpdates_versions_ok:
  assumes "state_versions_ok s" "VW_checkForUpdates filt env decode clk s = Some r"
  shows "state_versions_ok (snd r)"
proof -
  define L where "L = (if \<not> status_before env \<or> \<not> isLoggedIn s
            then VW_login (first_login env) s else (True, s))"
  define N where "N = VW_navigateToDownloads env (snd L)"
  define us where "us = new_updates (metadata (snd N))
         (case vw_found env of None \<Rightarrow> [] | Some ds \<Rightarrow> VW_categorizeDownloads filt ds)"
  define D where "D = download_each (VW_downloadFile decode clk) (vw_transfer_of env) us (snd N)"
  have eq: "VW_checkForUpdates filt env decode clk s =
     (if \<not> fst L then Some (None, snd L)
      else if \<not> fst N then Some (None, snd N)
      else if D = None then None
      else Some (Some (length (fst (the D)), fst (snd (the D))),
                 updateLastCheck clk (snd (snd (the D)))))"
    unfolding L_def N_def D_def us_def by (rule VW_checkForUpdates_unfold)
  have 0: "state_versions_ok (snd L)"
    unfolding L_def using assms(1)
    by (rule same_records_versions_ok) (simp_all add: VW_login_def split: option.splits)
  have 1: "state_versions_ok (snd N)"
    unfolding N_def using 0
    by (rule same_records_versions_ok)
      (simp_all add: VW_navigateToDownloads_def VW_login_def split: option.splits)
  have v: "\<forall>u\<in>set us. version u \<noteq> []"
  proof (cases "vw_found env")
    case None
    then show ?thesis by (simp add: us_def new_updates_def)
  next
    case (Some ds)
    from new_updates_versions [OF categorized_versions(2)] Some show ?thesis
      by (simp add: us_def)
  qed
  have 2: "state_versions_ok (snd (snd (the D)))" if "D \<noteq> None"
  proof -
    from that obtain q where q: "D = Some q" by auto
    then have "state_versions_ok (snd (snd q))"
      unfolding D_def using downloadFile_versions_ok(2) 1 v
      by (intro download_each_versions_ok)
    with q show ?thesis by simp
  qed
  show ?thesis
    using assms(2) 0 1 2 unfolding eq
    by (auto simp: updateLastCheck_versions_ok split: if_splits)
qed

subsection \<open>Login, loading, the aggregate\<close>

lemma BMW_login_failure_reported_once:
  "fst (BMW_login p s) = False \<Longrightarrow>
     \<exists>msg. notifications (snd (BMW_login p s)) = notifications s @ [LoginFailure (providerName s) msg]"
  by (auto simp: BMW_login_def sendLoginFailureNotification_def split: if_splits option.splits)

lemma VW_login_never_notifies: "notifications (snd (VW_login p s)) = notifications s"
  by (simp add: VW_login_def split: option.splits)

text \<open>
  C4. A failed login must be reported once to the e-mail service. \<open>BMWProvider.login\<close>
  does that; \<open>VWProvider.login\<close> returns \<open>false\<close> and reports nothing. Both are run
  here on a login that the portal turns down.
\<close>

theorem VW_login_failure_not_reported:
  "fst (VW_login vw_denied_page (fresh_provider ''vw'')) = False \<and>
   notifications (snd (VW_login vw_denied_page (fresh_provider ''vw''))) = [] \<and>
   fst (BMW_login bmw_denied_page (fresh_provider ''bmw'')) = False \<and>
   notifications (snd (BMW_login bmw_denied_page (fresh_provider ''bmw''))) =
     [LoginFailure ''bmw'' ''Login verification failed - URL: https://login.example.com/denied'']"
  by code_simp

text \<open>
  C9. When the aggregate file is missing or does not parse, \<open>loadGlobalMetadata\<close>
  returns the empty aggregate (no providers, \<open>lastGlobalUpdate\<close> \<open>null\<close>, version
  \<open>1.0.0\<close>); when the vendor file is missing or does not parse, \<open>loadMetadata\<close> leaves
  the empty vendor state in memory (\<open>lastUpdate\<close> \<open>null\<close>, no downloads). Neither has
  an error result: both are total.
\<close>

theorem load_failure_gives_empty_shape:
  "(fc = Missing \<or> fc = Unparsable \<longrightarrow>
      loadGlobalMetadata fc =
        \<lparr>providers = Map.empty, lastGlobalUpdate = None, agg_version = ''1.0.0''\<rparr>) \<and>
   (metadata_file s = Missing \<or> metadata_file s = Unparsable \<longrightarrow>
      metadata (loadMetadata s) = \<lparr>lastUpdate = None, downloads = Some Map.empty\<rparr>)"
  by (auto simp: loadMetadata_def empty_aggregate_state_def empty_vendor_state_def)

theorem load_failure_gives_empty_shape_witness:
  "loadGlobalMetadata Unparsable = empty_aggregate_state \<and>
   metadata (loadMetadata (fresh_provider ''vw'')) = empty_vendor_state"
proof -
  have "metadata_file (fresh_provider ''vw'') = Missing" by (simp add: fresh_provider_def)
  with load_failure_gives_empty_shape [of Unparsable "fresh_provider ''vw''"]
  show ?thesis by (simp add: empty_aggregate_state_def empty_vendor_state_def)
qed

text \<open>
  Three steps of one writer in a row, with no other writer in between, are
  \<open>updateProviderMetadata\<close> as the single provider sees it.
\<close>

lemma writer_steps_are_updateProviderMetadata:
  assumes "read_disk f = global_file s"
  shows "writer_step len clk (writer_step len clk (writer_step len clk
            ((f, reads s), new_writer (providerName s) (metadata s)))) =
         ((Text (len (loadGlobalMetadata (global_file (updateProviderMetadata clk s))))
             (Some (loadGlobalMetadata (global_file (updateProviderMetadata clk s)))),
           reads (updateProviderMetadata clk s)),
          (new_writer (providerName s) (metadata s))\<lparr>w_phase := Saved\<rparr>)"
  using assms
  by (simp add: writer_step_def new_writer_def updateProviderMetadata_def open_truncate_def
      write_text_def)

text \<open>
  C7 (as amended). An aggregate update is a load, the opening of the file, which
  truncates it, and the writing of the text, with nothing that keeps another vendor
  loop from running in between. Two vendors \<open>a\<close> and \<open>b\<close> update the aggregate; both
  calls always complete.
  \<^item> When one update runs after the other, the aggregate holds the data of both.
  \<^item> When both load before either saves and the saves do not overlap, the file holds
    what \<open>b\<close> wrote: the entry of \<open>a\<close> is what it was before the two updates, so the
    update of \<open>a\<close> is lost.
  \<^item> When \<open>b\<close> loads after \<open>a\<close> has truncated the file and before \<open>a\<close> has written it,
    \<open>b\<close> reads an empty file, starts from the empty aggregate and writes last: the file
    then holds the entry of \<open>b\<close> and no other vendor's.
  \<^item> When both open the file before either writes, the file is unparsable at the end
    if the text \<open>a\<close> wrote is longer than the text of \<open>b\<close>, and holds what \<open>b\<close> wrote
    otherwise. An unparsable file makes the next reader start from the empty aggregate.
\<close>

theorem aggregate_update_is_not_serialized:
  assumes "a \<noteq> b"
  shows
    "both_saved (run_schedule len clk one_after_the_other
        ((f, r), new_writer a da, new_writer b db)) \<and>
     map_option downloads (providers (aggregate_after (run_schedule len clk one_after_the_other
        ((f, r), new_writer a da, new_writer b db))) a) = Some (downloads da) \<and>
     map_option downloads (providers (aggregate_after (run_schedule len clk one_after_the_other
        ((f, r), new_writer a da, new_writer b db))) b) = Some (downloads db) \<and>
     both_saved (run_schedule len clk loads_before_saves
        ((f, r), new_writer a da, new_writer b db)) \<and>
     file_after (run_schedule len clk loads_before_saves
        ((f, r), new_writer a da, new_writer b db)) =
       Parsed (provider_update b db (clk (r + 2)) (clk (r + 3))
                 (loadGlobalMetadata (read_disk f))) \<and>
     providers (aggregate_after (run_schedule len clk loads_before_saves
        ((f, r), new_writer a da, new_writer b db))) a =
       providers (loadGlobalMetadata (read_disk f)) a \<and>
     both_saved (run_schedule len clk load_into_truncated_file
        ((f, r), new_writer a da, new_writer b db)) \<and>
     file_after (run_schedule len clk load_into_truncated_file
        ((f, r), new_writer a da, new_writer b db)) =
       Parsed (provider_update b db (clk (r + 2)) (clk (r + 3)) empty_aggregate_state) \<and>
     (c \<noteq> b \<longrightarrow>
        providers (aggregate_after (run_schedule len clk load_into_truncated_file
          ((f, r), new_writer a da, new_writer b db))) c = None) \<and>
     both_saved (run_schedule len clk overlapping_saves
        ((f, r), new_writer a da, new_writer b db)) \<and>
     file_after (run_schedule len clk overlapping_saves
        ((f, r), new_writer a da, new_writer b db)) =
       (if len (provider_update b db (clk (r + 2)) (clk (r + 3))
                  (loadGlobalMetadata (read_disk f)))
           < len (provider_update a da (clk r) (clk (r + 1))
                  (loadGlobalMetadata (read_disk f)))
        then Unparsable
        else Parsed (provider_update b db (clk (r + 2)) (clk (r + 3))
                       (loadGlobalMetadata (read_disk f)))) \<and>
     loadGlobalMetadata Unparsable = empty_aggregate_state"
  using assms
  by (auto simp: one_after_the_other_def loads_before_saves_def load_into_truncated_file_def
      overlapping_saves_def both_saved_def file_after_def aggregate_after_def writer_step_def
      new_writer_def provider_update_def open_truncate_def write_text_def
      empty_aggregate_state_def eval_nat_numeral)

theorem aggregate_update_is_not_serialized_witness:
  "map_option downloads (providers (aggregate_after (two_vendor_run one_after_the_other))
       ''bmw'') = Some (downloads empty_vendor_state) \<and>
   map_option downloads (providers (aggregate_after (two_vendor_run one_after_the_other))
       ''vw'') = Some (downloads empty_vendor_state) \<and>
   providers (aggregate_after (two_vendor_run load_into_truncated_file)) ''bmw'' = None"
proof -
  have ne: "''bmw'' \<noteq> ''vw''" by simp
  from aggregate_update_is_not_serialized [OF ne, of example_length tick_clock Absent 0
      empty_vendor_state empty_vendor_state "''bmw''"] ne
  show ?thesis unfolding two_vendor_run_def by blast
qed

text \<open>
  C7 as stated fails. In the first run both loops load before either saves: both
  finish their update, and the aggregate has the entry of \<open>vw\<close> and none for \<open>bmw\<close>. In
  the second run the saves overlap as well: both finish, the file does not parse, and
  the next reader finds neither entry.
\<close>

theorem aggregate_update_counterexample:
  "both_saved (two_vendor_run loads_before_saves) \<and>
   providers (aggregate_after (two_vendor_run loads_before_saves)) ''bmw'' = None \<and>
   map_option entry_version
     (providers (aggregate_after (two_vendor_run loads_before_saves)) ''vw'') = Some ''1.0.0'' \<and>
   both_saved (two_vendor_run overlapping_saves) \<and>
   file_after (two_vendor_run overlapping_saves) = Unparsable \<and>
   providers (aggregate_after (two_vendor_run overlapping_saves)) ''bmw'' = None \<and>
   providers (aggregate_after (two_vendor_run overlapping_saves)) ''vw'' = None"
  by (simp add: two_vendor_run_def loads_before_saves_def overlapping_saves_def both_saved_def
      file_after_def aggregate_after_def writer_step_def new_writer_def provider_update_def
      open_truncate_def write_text_def example_length_def empty_vendor_state_def
      empty_aggregate_state_def tick_clock_def)

end
